theory Spec2Isabelle
  imports Main "HOL-Library.Countable"
begin

section \<open>Vocalist attribution in song lyrics (src/processors/lyrics.js)\<close>

subsection \<open>JavaScript strings\<close>

text \<open>
  A JavaScript string is a sequence of UTF-16 code units, and every string operation of
  \<^verbatim>\<open>lyrics.js\<close> (\<^verbatim>\<open>split\<close>, \<^verbatim>\<open>trim\<close>, \<^verbatim>\<open>startsWith\<close>, \<^verbatim>\<open>includes\<close>,
  the regular expressions without the \<^verbatim>\<open>u\<close> flag) works on code units. A string is therefore
  a list of code units, each a natural number; \<open>js\<close> writes a literal.
\<close>

type_synonym jsstring = "nat list"

definition js :: "string \<Rightarrow> jsstring" where
  "js s = map of_char s"

text \<open>
  The characters that \<^verbatim>\<open>String.prototype.trim\<close> strips and that \<^verbatim>\<open>\s\<close> matches: the
  WhiteSpace and LineTerminator code points of ECMAScript (TAB, LF, VT, FF, CR, SP, NBSP,
  U+1680, U+2000..U+200A, U+2028, U+2029, U+202F, U+205F, U+3000, U+FEFF).
\<close>

definition isWhiteSpace :: "nat \<Rightarrow> bool" where
  "isWhiteSpace c \<longleftrightarrow>
     c = 9 \<or> c = 10 \<or> c = 11 \<or> c = 12 \<or> c = 13 \<or> c = 32 \<or> c = 160 \<or> c = 5760 \<or>
     (8192 \<le> c \<and> c \<le> 8202) \<or> c = 8232 \<or> c = 8233 \<or> c = 8239 \<or> c = 8287 \<or>
     c = 12288 \<or> c = 65279"

definition trim :: "jsstring \<Rightarrow> jsstring" where
  "trim s = rev (dropWhile isWhiteSpace (rev (dropWhile isWhiteSpace s)))"

definition startsWith :: "jsstring \<Rightarrow> jsstring \<Rightarrow> bool" where
  "startsWith s p \<longleftrightarrow> take (length p) s = p"

fun includesStr :: "jsstring \<Rightarrow> jsstring \<Rightarrow> bool" where
  "includesStr [] p = (p = [])"
| "includesStr (c # cs) p = (startsWith (c # cs) p \<or> includesStr cs p)"

text \<open>\<^verbatim>\<open>s.indexOf(c)\<close> for a single character; \<open>None\<close> is the source's \<^verbatim>\<open>-1\<close>.\<close>

fun indexOf :: "jsstring \<Rightarrow> nat \<Rightarrow> nat option" where
  "indexOf [] c = None"
| "indexOf (x # xs) c = (if x = c then Some 0 else map_option Suc (indexOf xs c))"

text \<open>
  \<^verbatim>\<open>s.split(sep)\<close> with a non-empty string separator; \<open>acc\<close> is the segment being read.
  The empty string splits into one empty segment.
\<close>

function splitStr :: "jsstring \<Rightarrow> jsstring \<Rightarrow> jsstring \<Rightarrow> jsstring list" where
  "splitStr sep acc s =
     (if s = [] then [acc]
      else if sep \<noteq> [] \<and> startsWith s sep then acc # splitStr sep [] (drop (length sep) s)
      else splitStr sep (acc @ [hd s]) (tl s))"
  by pat_completeness auto
termination
  by (relation "measure (\<lambda>(sep, acc, s). length s)") auto

definition split :: "jsstring \<Rightarrow> jsstring \<Rightarrow> jsstring list" where
  "split s sep = splitStr sep [] s"

text \<open>\<^verbatim>\<open>s.replace(pat, rep)\<close> with a string pattern: the first occurrence only.\<close>

fun replaceFirst :: "jsstring \<Rightarrow> jsstring \<Rightarrow> jsstring \<Rightarrow> jsstring" where
  "replaceFirst pat rep [] = (if pat = [] then rep else [])"
| "replaceFirst pat rep (c # cs) =
     (if startsWith (c # cs) pat then rep @ drop (length pat) (c # cs)
      else c # replaceFirst pat rep cs)"

text \<open>
  \<^verbatim>\<open>s.replace(/lit/g, rep)\<close> for a literal, non-empty pattern: every occurrence, left to
  right, the search resuming after each replaced occurrence.
\<close>

function replaceAll :: "jsstring \<Rightarrow> jsstring \<Rightarrow> jsstring \<Rightarrow> jsstring" where
  "replaceAll pat rep s =
     (if s = [] then []
      else if pat \<noteq> [] \<and> startsWith s pat then rep @ replaceAll pat rep (drop (length pat) s)
      else hd s # replaceAll pat rep (tl s))"
  by pat_completeness auto
termination
  by (relation "measure (\<lambda>(pat, rep, s). length s)") auto

text \<open>\<^verbatim>\<open>s.replace(/\s+/g, ' ')\<close>: every maximal run of white space becomes one space.\<close>

function collapseSpaces :: "jsstring \<Rightarrow> jsstring" where
  "collapseSpaces [] = []"
| "collapseSpaces (c # cs) =
     (if isWhiteSpace c then 32 # collapseSpaces (dropWhile isWhiteSpace cs)
      else c # collapseSpaces cs)"
  by pat_completeness auto
termination
  by (relation "measure length") (auto simp: less_Suc_eq_le length_dropWhile_le)

text \<open>
  \<^verbatim>\<open>s.replace(/\s*lit\s*/g, rep)\<close>: at each position the white space before the literal and
  after it is taken greedily; where the literal does not follow, the character is kept and
  the search moves on by one.
\<close>

function replaceSpaced :: "jsstring \<Rightarrow> jsstring \<Rightarrow> jsstring \<Rightarrow> jsstring" where
  "replaceSpaced lit rep s =
     (if s = [] then []
      else if lit \<noteq> [] \<and> startsWith (dropWhile isWhiteSpace s) lit
        then rep @ replaceSpaced lit rep
               (dropWhile isWhiteSpace (drop (length lit) (dropWhile isWhiteSpace s)))
      else hd s # replaceSpaced lit rep (tl s))"
  by pat_completeness auto
termination
proof (relation "measure (\<lambda>(lit, rep, s). length s)", goal_cases)
  case 1
  show ?case by simp
next
  case (2 lit rep s)
  let ?d = "dropWhile isWhiteSpace s"
  from 2 have lit: "lit \<noteq> []" and t: "take (length lit) ?d = lit"
    by (auto simp: startsWith_def)
  have "?d \<noteq> []"
  proof
    assume "?d = []"
    with t have "lit = []" by simp
    with lit show False by simp
  qed
  with lit have "length (drop (length lit) ?d) < length ?d"
    by (cases lit) auto
  moreover have "length (dropWhile isWhiteSpace (drop (length lit) ?d))
      \<le> length (drop (length lit) ?d)"
    by (rule length_dropWhile_le)
  moreover have "length ?d \<le> length s"
    by (rule length_dropWhile_le)
  ultimately show ?case by simp
next
  case (3 lit rep s)
  then show ?case by (cases s) auto
qed

subsection \<open>Plain objects used as dictionaries\<close>

text \<open>
  \<^verbatim>\<open>vocalists\<close> and \<^verbatim>\<open>vocalistStats\<close> are object literals \<^verbatim>\<open>{}\<close> indexed by vocalist
  names. An object is modelled by its own properties in creation order. Three facts of the
  language show through the dictionary and are part of the model:
  \<^item> an assignment to the key \<^verbatim>\<open>__proto__\<close> goes to the prototype setter and creates no own
    property (the setter ignores a string; given an object it replaces the prototype);
  \<^item> a read of a key that is not an own property finds the members of
    \<^verbatim>\<open>Object.prototype\<close>, all of them truthy (functions, and the prototype object itself);
  \<^item> \<^verbatim>\<open>Object.keys\<close>, \<^verbatim>\<open>Object.values\<close> and \<^verbatim>\<open>Object.entries\<close> list the keys that are
    array indices first, in ascending numeric order, then the other keys in creation order.
\<close>

type_synonym 'a jsobject = "(jsstring \<times> 'a) list"

fun putProp :: "'a jsobject \<Rightarrow> jsstring \<Rightarrow> 'a \<Rightarrow> 'a jsobject" where
  "putProp [] k v = [(k, v)]"
| "putProp ((k', v') # ps) k v = (if k' = k then (k, v) # ps else (k', v') # putProp ps k v)"

definition assign :: "'a jsobject \<Rightarrow> jsstring \<Rightarrow> 'a \<Rightarrow> 'a jsobject" where
  "assign obj k v = (if k = js ''__proto__'' then obj else putProp obj k v)"

definition objectPrototypeKeys :: "jsstring list" where
  "objectPrototypeKeys =
     [js ''constructor'', js ''__defineGetter__'', js ''__defineSetter__'',
      js ''hasOwnProperty'', js ''__lookupGetter__'', js ''__lookupSetter__'',
      js ''isPrototypeOf'', js ''propertyIsEnumerable'', js ''toString'', js ''valueOf'',
      js ''__proto__'', js ''toLocaleString'']"

datatype 'a lookup = Own 'a | Inherited | Undefined

definition getProp :: "'a jsobject \<Rightarrow> jsstring \<Rightarrow> 'a lookup" where
  "getProp obj k =
     (case map_of obj k of
        Some v \<Rightarrow> Own v
      | None \<Rightarrow> if k \<in> set objectPrototypeKeys then Inherited else Undefined)"

definition isDigit :: "nat \<Rightarrow> bool" where
  "isDigit c \<longleftrightarrow> 48 \<le> c \<and> c \<le> 57"

definition indexValue :: "jsstring \<Rightarrow> nat" where
  "indexValue k = foldl (\<lambda>a c. 10 * a + (c - 48)) 0 k"

text \<open>An array index: the canonical decimal form of an integer below \<open>2^32 - 1\<close>.\<close>

definition isArrayIndex :: "jsstring \<Rightarrow> bool" where
  "isArrayIndex k \<longleftrightarrow>
     k \<noteq> [] \<and> list_all isDigit k \<and> (hd k = 48 \<longrightarrow> k = [48]) \<and> indexValue k < 4294967295"

definition entries :: "'a jsobject \<Rightarrow> (jsstring \<times> 'a) list" where
  "entries obj =
     sort_key (\<lambda>p. indexValue (fst p)) (filter (\<lambda>p. isArrayIndex (fst p)) obj)
     @ filter (\<lambda>p. \<not> isArrayIndex (fst p)) obj"

definition keys :: "'a jsobject \<Rightarrow> jsstring list" where
  "keys obj = map fst (entries obj)"

definition values_of :: "'a jsobject \<Rightarrow> 'a list" where
  "values_of obj = map snd (entries obj)"

subsection \<open>Vocalist lists of section headers\<close>

datatype format = Plain | Bold | Italic | BoldItalic

record tagMatch =
  fullMatch :: jsstring
  content :: jsstring
  format :: format
  start :: nat
  end_pos :: nat

text \<open>\<^verbatim>\<open>name.replace(/&amp;/g, '&')\<close>\<close>

definition processVocalistName :: "jsstring \<Rightarrow> jsstring" where
  "processVocalistName name = replaceAll (js ''&amp;'') (js ''&'') name"

text \<open>
  One of the four patterns \<^verbatim>\<open>/OPEN([^<]+)CLOSE/\<close> tried at the head of \<open>s\<close>: the inner
  group is the longest run without \<^verbatim>\<open><\<close>, it must be non-empty and the closing literal must
  follow it. The result is the inner text and the length of the whole match.
\<close>

definition matchHere :: "jsstring \<Rightarrow> jsstring \<Rightarrow> jsstring \<Rightarrow> (jsstring \<times> nat) option" where
  "matchHere opn cls s =
     (if startsWith s opn then
        (let body = drop (length opn) s;
             inner = takeWhile (\<lambda>c. c \<noteq> 60) body;
             rest = dropWhile (\<lambda>c. c \<noteq> 60) body
         in if inner \<noteq> [] \<and> startsWith rest cls
            then Some (inner, length opn + length inner + length cls) else None)
      else None)"

text \<open>
  The loop \<^verbatim>\<open>while ((match = regex.exec(text)) !== null)\<close> of a global pattern: \<open>s\<close> is the
  text from \<^verbatim>\<open>lastIndex\<close> on and \<open>pos\<close> is \<^verbatim>\<open>lastIndex\<close>.
\<close>

function execAll :: "jsstring \<Rightarrow> jsstring \<Rightarrow> format \<Rightarrow> nat \<Rightarrow> jsstring \<Rightarrow> tagMatch list" where
  "execAll opn cls fmt pos s =
     (if s = [] then []
      else case matchHere opn cls s of
        Some (inner, n) \<Rightarrow>
          \<lparr>fullMatch = take n s, content = trim inner, format = fmt,
           start = pos, end_pos = pos + n\<rparr> # execAll opn cls fmt (pos + n) (drop n s)
      | None \<Rightarrow> execAll opn cls fmt (pos + 1) (tl s))"
  by pat_completeness auto
termination
proof (relation "measure (\<lambda>(opn, cls, fmt, pos, s). length s)", goal_cases)
  case 1
  show ?case by simp
next
  case (2 opn cls fmt pos s)
  then show ?case by (cases s) auto
next
  case (3 opn cls fmt pos s x2 inner n)
  then have "matchHere opn cls s = Some (inner, n)"
    by simp
  then have "0 < n \<and> s \<noteq> []"
    by (auto simp: matchHere_def Let_def startsWith_def split: if_splits)
  then show ?case by simp
qed

definition patterns :: "(jsstring \<times> jsstring \<times> format) list" where
  "patterns =
     [(js ''<b><i>'', js ''</i></b>'', BoldItalic),
      (js ''<i><b>'', js ''</b></i>'', BoldItalic),
      (js ''<b>'', js ''</b>'', Bold),
      (js ''<i>'', js ''</i>'', Italic)]"

definition allMatches :: "jsstring \<Rightarrow> tagMatch list" where
  "allMatches text = concat (map (\<lambda>(opn, cls, fmt). execAll opn cls fmt 0 text) patterns)"

definition overlaps :: "tagMatch \<Rightarrow> tagMatch list \<Rightarrow> bool" where
  "overlaps m filtered \<longleftrightarrow>
     list_ex (\<lambda>existing.
        (start m \<ge> start existing \<and> start m < end_pos existing) \<or>
        (end_pos m > start existing \<and> end_pos m \<le> end_pos existing)) filtered"

fun removeOverlaps :: "tagMatch list \<Rightarrow> tagMatch list \<Rightarrow> tagMatch list" where
  "removeOverlaps filtered [] = filtered"
| "removeOverlaps filtered (m # ms) =
     (if overlaps m filtered then removeOverlaps filtered ms
      else removeOverlaps (filtered @ [m]) ms)"

text \<open>\<^verbatim>\<open>Array.prototype.sort\<close> is stable, as \<open>sort_key\<close> is.\<close>

definition filteredMatches :: "jsstring \<Rightarrow> tagMatch list" where
  "filteredMatches text = removeOverlaps [] (sort_key start (allMatches text))"

text \<open>
  \<^verbatim>\<open>toLowerCase\<close> on the letters A to Z. The source compares the result with the ASCII
  literal \<^verbatim>\<open>'with '\<close> only, and no other code unit is lowered to one of its characters at the
  same position.
\<close>

definition toLowerCase :: "jsstring \<Rightarrow> jsstring" where
  "toLowerCase s = map (\<lambda>c. if 65 \<le> c \<and> c \<le> 90 then c + 32 else c) s"

definition withStripped :: "jsstring \<Rightarrow> jsstring" where
  "withStripped c =
     (if startsWith (toLowerCase c) (js ''with '') then trim (drop 5 c) else c)"

definition placeholder :: jsstring where
  "placeholder = js ''|||REMOVED|||''"

text \<open>The body of the loop over \<^verbatim>\<open>filteredMatches\<close>, on the pair of \<^verbatim>\<open>vocalists\<close> and \<^verbatim>\<open>workingText\<close>.\<close>

definition processMatch ::
  "(jsstring \<times> format) list \<times> jsstring \<Rightarrow> tagMatch \<Rightarrow> (jsstring \<times> format) list \<times> jsstring" where
  "processMatch st m =
     (let c = withStripped (content m) in
      if c \<noteq> [] then
        (fst st @ [(processVocalistName c, format m)],
         replaceFirst (fullMatch m) placeholder (snd st))
      else st)"

text \<open>\<^verbatim>\<open>/^\s*&amp;\s*/\<close> replaced by the empty string.\<close>

definition stripLeadingAmp :: "jsstring \<Rightarrow> jsstring" where
  "stripLeadingAmp s =
     (let r = dropWhile isWhiteSpace s in
      if startsWith r (js ''&amp;'') then dropWhile isWhiteSpace (drop 5 r) else s)"

definition isDelimiter :: "nat \<Rightarrow> bool" where
  "isDelimiter c \<longleftrightarrow> c = 44 \<or> c = 38 \<or> isWhiteSpace c"

text \<open>\<^verbatim>\<open>/^[,&\s]+|[,&\s]+$/g\<close> replaced by the empty string.\<close>

definition stripDelimiters :: "jsstring \<Rightarrow> jsstring" where
  "stripDelimiters s = rev (dropWhile isDelimiter (rev (dropWhile isDelimiter s)))"

definition cleanRemaining :: "jsstring \<Rightarrow> jsstring" where
  "cleanRemaining workingText =
     trim (stripDelimiters (stripLeadingAmp (collapseSpaces
       (replaceAll placeholder [] workingText))))"

definition workingTextOf :: "jsstring \<Rightarrow> (jsstring \<times> format) list \<times> jsstring" where
  "workingTextOf text = foldl processMatch ([], text) (filteredMatches text)"

definition extractTaggedVocalists :: "jsstring \<Rightarrow> (jsstring \<times> format) list \<times> jsstring" where
  "extractTaggedVocalists text =
     (let st = workingTextOf text in (fst st, cleanRemaining (snd st)))"

text \<open>\<^verbatim>\<open>/\s+with\s+/gi\<close> replaced by the marker; without the \<^verbatim>\<open>u\<close> flag only the ASCII letters match.\<close>

function replaceWithWord :: "jsstring \<Rightarrow> jsstring" where
  "replaceWithWord s =
     (if s = [] then []
      else
        (let r = dropWhile isWhiteSpace s; r' = drop 4 r in
         if isWhiteSpace (hd s) \<and> toLowerCase (take 4 r) = js ''with'' \<and>
            r' \<noteq> [] \<and> isWhiteSpace (hd r')
         then js ''|||'' @ replaceWithWord (dropWhile isWhiteSpace r')
         else hd s # replaceWithWord (tl s)))"
  by pat_completeness auto
termination
proof (relation "measure length", goal_cases)
  case 1
  show ?case by simp
next
  case (2 s r r')
  have "length (dropWhile isWhiteSpace r') \<le> length r'"
    by (rule length_dropWhile_le)
  moreover from 2 have "length r' \<le> length r"
    by simp
  moreover from 2 have "length r < length s"
    by (cases s) (auto simp: less_Suc_eq_le length_dropWhile_le)
  ultimately show ?case by simp
next
  case (3 s r r')
  then show ?case by (cases s) auto
qed

text \<open>\<^verbatim>\<open>/\|\|\|+/g\<close> replaced by the marker: a run of three or more bars becomes three.\<close>

function collapseMarkers :: "jsstring \<Rightarrow> jsstring" where
  "collapseMarkers s =
     (if s = [] then []
      else if startsWith s (js ''|||'')
        then js ''|||'' @ collapseMarkers (dropWhile (\<lambda>c. c = 124) s)
      else hd s # collapseMarkers (tl s))"
  by pat_completeness auto
termination
proof (relation "measure length", goal_cases)
  case 1
  show ?case by simp
next
  case (2 s)
  then show ?case
    by (cases s) (auto simp: startsWith_def js_def less_Suc_eq_le length_dropWhile_le)
next
  case (3 s)
  then show ?case by (cases s) auto
qed

text \<open>
  The last replacement of \<^verbatim>\<open>normalizeDelimiters\<close> is written \<^verbatim>\<open>/^\|\|\||||\|\|\|$/g\<close>: between
  the leading alternative \<^verbatim>\<open>^\|\|\|\<close> and the trailing one \<^verbatim>\<open>\|\|\|$\<close> stand three unescaped
  bars, hence two empty alternatives. Where the leading alternative fails the empty one
  matches at once, so the trailing alternative is never tried: only a leading marker is
  removed (a trailing one gives an empty segment, which \<^verbatim>\<open>splitIntoSegments\<close> drops).
\<close>

definition dropLeadingMarker :: "jsstring \<Rightarrow> jsstring" where
  "dropLeadingMarker t = (if startsWith t (js ''|||'') then drop 3 t else t)"

definition normalizeDelimiters :: "jsstring \<Rightarrow> jsstring" where
  "normalizeDelimiters text =
     dropLeadingMarker
       (collapseMarkers
         (replaceSpaced (js '','') (js ''|||'')
           (replaceWithWord
             (replaceSpaced (js ''&'') (js ''|||'')
               (replaceSpaced (js ''&amp;'') (js ''|||'') text)))))"

definition splitIntoSegments :: "jsstring \<Rightarrow> jsstring list" where
  "splitIntoSegments text = filter (\<lambda>s. length s > 0) (map trim (split text (js ''|||'')))"

text \<open>\<^verbatim>\<open>/^\(|\)$/g\<close> removes an opening parenthesis at the start and a closing one at the end.\<close>

definition stripParens :: "jsstring \<Rightarrow> jsstring" where
  "stripParens s =
     (let s1 = (if s \<noteq> [] \<and> hd s = 40 then tl s else s)
      in if s1 \<noteq> [] \<and> last s1 = 41 then butlast s1 else s1)"

definition cleanSegment :: "jsstring \<Rightarrow> jsstring" where
  "cleanSegment segment = trim (collapseSpaces (stripParens segment))"

definition parseUntaggedText :: "jsstring \<Rightarrow> (jsstring \<times> format) list" where
  "parseUntaggedText text =
     (if text = [] then []
      else map (\<lambda>cleaned. (processVocalistName cleaned, Plain))
             (filter (\<lambda>cleaned. cleaned \<noteq> [])
                (map cleanSegment (splitIntoSegments (normalizeDelimiters text)))))"

definition parseVocalists :: "jsstring \<Rightarrow> format jsobject" where
  "parseVocalists vocalistsPart =
     (let taggedResult = extractTaggedVocalists vocalistsPart;
          vocalists = foldl (\<lambda>obj v. assign obj (fst v) (snd v)) [] (fst taggedResult);
          untaggedVocalists = parseUntaggedText (snd taggedResult)
      in foldl (\<lambda>obj v. assign obj (fst v) (snd v)) vocalists untaggedVocalists)"

subsection \<open>Attribution of one line\<close>

definition findFormat :: "format \<Rightarrow> (jsstring \<times> format) list \<Rightarrow> (jsstring \<times> format) option" where
  "findFormat f es = find (\<lambda>p. snd p = f) es"

text \<open>
  The expression
  \<^verbatim>\<open>plainVocalist ? plainVocalist[0] : (vocalistEntries[0] ? vocalistEntries[0][0] : 'Unknown')\<close>,
  which the source writes twice.
\<close>

definition plainOrFirst :: "(jsstring \<times> format) list \<Rightarrow> jsstring" where
  "plainOrFirst es =
     (case findFormat Plain es of
        Some p \<Rightarrow> fst p
      | None \<Rightarrow> (case es of e # _ \<Rightarrow> fst e | [] \<Rightarrow> js ''Unknown''))"

definition determineVocalist :: "jsstring \<Rightarrow> format jsobject \<Rightarrow> jsstring" where
  "determineVocalist line vocalists =
     (let vocalistEntries = entries vocalists in
      if line \<noteq> [] \<and> hd line \<noteq> 60 then plainOrFirst vocalistEntries
      else
        case (if startsWith line (js ''<b><i>'') \<or> startsWith line (js ''<i><b>'')
              then findFormat BoldItalic vocalistEntries else None) of
          Some p \<Rightarrow> fst p
        | None \<Rightarrow>
        case (if startsWith line (js ''<b>'') then findFormat Bold vocalistEntries else None) of
          Some p \<Rightarrow> fst p
        | None \<Rightarrow>
        case (if startsWith line (js ''<i>'') then findFormat Italic vocalistEntries else None) of
          Some p \<Rightarrow> fst p
        | None \<Rightarrow> plainOrFirst vocalistEntries)"

text \<open>\<^verbatim>\<open>/^\[([^\]]+)\]$/\<close> on the trimmed line: the bracketed content, if the line is a header.\<close>

definition sectionMatch :: "jsstring \<Rightarrow> jsstring option" where
  "sectionMatch t =
     (case t of
        [] \<Rightarrow> None
      | c # cs \<Rightarrow>
          if c = 91 \<and> takeWhile (\<lambda>x. x \<noteq> 93) cs \<noteq> [] \<and> dropWhile (\<lambda>x. x \<noteq> 93) cs = [93]
          then Some (takeWhile (\<lambda>x. x \<noteq> 93) cs) else None)"

text \<open>\<^verbatim>\<open>line.match(/<(i|b)>/)\<close>: the tag name of the leftmost opening marker.\<close>

fun openTagMatch :: "jsstring \<Rightarrow> jsstring option" where
  "openTagMatch [] = None"
| "openTagMatch (c # cs) =
     (if startsWith (c # cs) (js ''<i>'') then Some (js ''i'')
      else if startsWith (c # cs) (js ''<b>'') then Some (js ''b'')
      else openTagMatch cs)"

text \<open>\<^verbatim>\<open>line.match(/<\/(i|b)>/)\<close>, of which the source uses only whether it is null.\<close>

definition closeTagMatch :: "jsstring \<Rightarrow> bool" where
  "closeTagMatch line \<longleftrightarrow> includesStr line (js ''</i>'') \<or> includesStr line (js ''</b>'')"

text \<open>\<^verbatim>\<open>line.replace(/<[^>]*>/g, '')\<close>\<close>

function stripTags :: "jsstring \<Rightarrow> jsstring" where
  "stripTags [] = []"
| "stripTags (c # cs) =
     (if c = 60 \<and> 62 \<in> set cs then stripTags (tl (dropWhile (\<lambda>x. x \<noteq> 62) cs))
      else c # stripTags cs)"
  by pat_completeness auto
termination
proof (relation "measure length", goal_cases)
  case 1
  show ?case by simp
next
  case (2 c cs)
  have "length (tl (dropWhile (\<lambda>x. x \<noteq> 62) cs)) \<le> length (dropWhile (\<lambda>x. x \<noteq> 62) cs)"
    by simp
  also have "\<dots> \<le> length cs"
    by (rule length_dropWhile_le)
  finally show ?case by simp
next
  case (3 c cs)
  show ?case by simp
qed

text \<open>\<^verbatim>\<open>s.split(/\s+/)\<close>; \<open>acc\<close> is the token being read.\<close>

function splitSpaces :: "jsstring \<Rightarrow> jsstring \<Rightarrow> jsstring list" where
  "splitSpaces acc s =
     (if s = [] then [acc]
      else if isWhiteSpace (hd s) then acc # splitSpaces [] (dropWhile isWhiteSpace s)
      else splitSpaces (acc @ [hd s]) (tl s))"
  by pat_completeness auto
termination
proof (relation "measure (\<lambda>(acc, s). length s)", goal_cases)
  case 1
  show ?case by simp
next
  case (2 acc s)
  then show ?case
    by (cases s) (auto simp: less_Suc_eq_le length_dropWhile_le)
next
  case (3 acc s)
  then show ?case by (cases s) auto
qed

text \<open>Lines 69 and 70: the number of words of a trimmed line.\<close>

definition wordCount :: "jsstring \<Rightarrow> nat" where
  "wordCount trimmedLine =
     (let cleanText = trim (stripTags trimmedLine)
      in length (filter (\<lambda>word. length word > 0) (splitSpaces [] cleanText)))"

subsection \<open>The line loop of parseLyricsWithVocalists\<close>

datatype error = TypeError

record stats =
  lines :: nat
  words :: nat

record attributed =
  vocalist :: jsstring
  line :: jsstring

text \<open>
  The variables of the loop: \<open>result\<close>, \<open>vstats\<close> (the variable \<^verbatim>\<open>vocalistStats\<close>),
  \<open>currentVocalists\<close>, \<open>openFormattingTag\<close> and \<open>openTagVocalist\<close> (\<open>None\<close> is \<^verbatim>\<open>null\<close>).
\<close>

record pstate =
  result :: "attributed list"
  vstats :: "stats jsobject"
  currentVocalists :: "format jsobject"
  openFormattingTag :: "jsstring option"
  openTagVocalist :: "jsstring option"

text \<open>The test \<^verbatim>\<open>openFormattingTag && openTagVocalist\<close>: null and the empty string are falsy.\<close>

definition isOpen :: "pstate \<Rightarrow> bool" where
  "isOpen s =
     (case (openFormattingTag s, openTagVocalist s) of
        (Some tag, Some v) \<Rightarrow> tag \<noteq> [] \<and> v \<noteq> []
      | _ \<Rightarrow> False)"

text \<open>
  Lines 44 to 66: the vocalist of a lyric line and the new values of \<^verbatim>\<open>openFormattingTag\<close>
  and \<^verbatim>\<open>openTagVocalist\<close>.
\<close>

definition attribute :: "pstate \<Rightarrow> jsstring \<Rightarrow> jsstring \<times> jsstring option \<times> jsstring option" where
  "attribute s trimmedLine =
     (case (isOpen s, openFormattingTag s, openTagVocalist s) of
        (True, Some tag, Some v) \<Rightarrow>
          if includesStr trimmedLine (js ''</'' @ tag @ js ''>'') then (v, None, None)
          else (v, Some tag, Some v)
      | _ \<Rightarrow>
          (let v = determineVocalist trimmedLine (currentVocalists s) in
           case openTagMatch trimmedLine of
             Some tag \<Rightarrow>
               if \<not> closeTagMatch trimmedLine then (v, Some tag, Some v)
               else (v, openFormattingTag s, openTagVocalist s)
           | None \<Rightarrow> (v, openFormattingTag s, openTagVocalist s)))"

text \<open>
  Lines 72 to 80. \<^verbatim>\<open>vocalistStats[vocalist]\<close> is read three times. Where the name is a member of
  \<^verbatim>\<open>Object.prototype\<close> and not an own property, the value read is that member: it is truthy,
  so no entry is created, and the two \<^verbatim>\<open>+=\<close> write properties of the member, not of
  \<^verbatim>\<open>vocalistStats\<close>. A read of \<^verbatim>\<open>undefined.lines\<close> would raise a TypeError.
\<close>

definition recordLine :: "stats jsobject \<Rightarrow> jsstring \<Rightarrow> nat \<Rightarrow> error + stats jsobject" where
  "recordLine vs v wc =
     (let vs1 = (case getProp vs v of
                   Undefined \<Rightarrow> assign vs v \<lparr>lines = 0, words = 0\<rparr>
                 | _ \<Rightarrow> vs)
      in case getProp vs1 v of
           Own st \<Rightarrow> Inr (putProp vs1 v (st\<lparr>lines := lines st + 1, words := words st + wc\<rparr>))
         | Inherited \<Rightarrow> Inr vs1
         | Undefined \<Rightarrow> Inl TypeError)"

text \<open>The body of \<^verbatim>\<open>for (const line of lines)\<close>.\<close>

definition processLine :: "pstate \<Rightarrow> jsstring \<Rightarrow> error + pstate" where
  "processLine s ln =
     (let trimmedLine = trim ln in
      if trimmedLine = [] then Inr s
      else
        case sectionMatch trimmedLine of
          Some sectionContent \<Rightarrow>
            Inr (s\<lparr>openFormattingTag := None, openTagVocalist := None,
                   currentVocalists :=
                     (case indexOf sectionContent 58 of
                        Some colonIndex \<Rightarrow>
                          parseVocalists (trim (drop (colonIndex + 1) sectionContent))
                      | None \<Rightarrow> currentVocalists s)\<rparr>)
        | None \<Rightarrow>
            if length (keys (currentVocalists s)) > 0 then
              (case attribute s trimmedLine of
                 (v, tag, tagVocalist) \<Rightarrow>
                   (case recordLine (vstats s) v (wordCount trimmedLine) of
                      Inl e \<Rightarrow> Inl e
                    | Inr vs \<Rightarrow>
                        Inr (s\<lparr>result := result s @ [\<lparr>vocalist = v, line = trimmedLine\<rparr>],
                               vstats := vs,
                               openFormattingTag := tag, openTagVocalist := tagVocalist\<rparr>)))
            else Inr s)"

fun processLines :: "pstate \<Rightarrow> jsstring list \<Rightarrow> error + pstate" where
  "processLines s [] = Inr s"
| "processLines s (ln # lns) =
     (case processLine s ln of Inl e \<Rightarrow> Inl e | Inr s' \<Rightarrow> processLines s' lns)"

definition initialState :: pstate where
  "initialState =
     \<lparr>result = [], vstats = [], currentVocalists = [],
      openFormattingTag = None, openTagVocalist = None\<rparr>"

record parsed =
  parsedLyrics :: "attributed list"
  vocalistStats :: "stats jsobject"

definition parseLyricsWithVocalists :: "jsstring \<Rightarrow> error + parsed" where
  "parseLyricsWithVocalists lyricsText =
     (case processLines initialState (split lyricsText (js [CHR 0x0A])) of
        Inl e \<Rightarrow> Inl e
      | Inr s \<Rightarrow> Inr \<lparr>parsedLyrics = result s, vocalistStats = vstats s\<rparr>)"

text \<open>
  The statistics that a list of attributed lines determines for a vocalist: the number of
  its lines and the sum of their word counts, if it has a line. This is what the two outputs
  of \<^verbatim>\<open>parseLyricsWithVocalists\<close> are compared with below; it is not part of the source.
\<close>

definition countedStats :: "attributed list \<Rightarrow> jsstring \<Rightarrow> stats option" where
  "countedStats ls v =
     (if filter (\<lambda>a. vocalist a = v) ls = [] then None
      else Some \<lparr>lines = length (filter (\<lambda>a. vocalist a = v) ls),
                 words = sum_list (map (\<lambda>a. wordCount (line a)) (filter (\<lambda>a. vocalist a = v) ls))\<rparr>)"

subsection \<open>generateStatsSummary\<close>

text \<open>
  A percentage is either the number \<^verbatim>\<open>0\<close> or the string that \<^verbatim>\<open>toFixed(1)\<close> returns. The
  counts are natural numbers (exact as doubles below \<open>2^53\<close>). The text of the floating-point
  expression \<^verbatim>\<open>(count / total * 100).toFixed(1)\<close> is the first argument
  \<open>toFixed1 count total\<close> of \<open>generateStatsSummary\<close>; the function of the source is
  \<open>generateStatsSummary percentage\<close>, with \<open>percentage\<close> as defined in the next subsection
  from the arithmetic of the language.
\<close>

datatype jsvalue = Number nat | String jsstring

record percentages =
  linesPercentage :: jsvalue
  wordsPercentage :: jsvalue
  lines_of :: nat
  words_of :: nat

record summary =
  totalLines :: nat
  totalWords :: nat
  vocalistCount :: nat
  vocalistPercentages :: "percentages jsobject"

definition generateStatsSummary ::
  "(nat \<Rightarrow> nat \<Rightarrow> jsstring) \<Rightarrow> stats jsobject \<Rightarrow> summary" where
  "generateStatsSummary toFixed1 vocalistStats' =
     (let totalLines = foldl (\<lambda>sum st. sum + lines st) 0 (values_of vocalistStats');
          totalWords = foldl (\<lambda>sum st. sum + words st) 0 (values_of vocalistStats');
          vocalistCount = length (keys vocalistStats');
          vocalistPercentages =
            foldl (\<lambda>obj (vocalist, st).
                assign obj vocalist
                  \<lparr>linesPercentage =
                     (if totalLines > 0 then String (toFixed1 (lines st) totalLines) else Number 0),
                   wordsPercentage =
                     (if totalWords > 0 then String (toFixed1 (words st) totalWords) else Number 0),
                   lines_of = lines st, words_of = words st\<rparr>)
              [] (entries vocalistStats')
      in \<lparr>totalLines = totalLines, totalWords = totalWords, vocalistCount = vocalistCount,
          vocalistPercentages = vocalistPercentages\<rparr>)"

subsection \<open>Numbers: binary64 arithmetic and toFixed\<close>

text \<open>
  A Number of the language is an IEEE 754 binary64 value. A finite double that is not negative
  is a rational number \<open>m * 2^e\<close> with a significand \<open>m < 2^53\<close>, and every arithmetic
  operation returns the double nearest to the exact result, a tie going to the even
  significand (roundTiesToEven). \<open>roundEven r\<close> is the integer nearest to \<open>r\<close>, a tie going to
  the even one.
\<close>

definition roundEven :: "rat \<Rightarrow> int" where
  "roundEven r =
     (let f = \<lfloor>r\<rfloor>; d = r - of_int f
      in if d < 1 / 2 then f else if 1 / 2 < d then f + 1 else if even f then f else f + 1)"

text \<open>
  \<open>toDouble q\<close> is the double nearest to the rational \<open>q \<ge> 0\<close>: \<open>q\<close> is scaled by the power of
  two that brings it into the interval from \<open>2^52\<close> to \<open>2^53\<close>, rounded to an integer
  significand, and scaled back. \<open>scaleUp q 1\<close> is the least power of two \<open>p\<close> with
  \<open>2^52 \<le> q * p\<close> (for \<open>q < 2^52\<close>), \<open>scaleDown q 1\<close> the least one with \<open>q / p < 2^53\<close>. The
  exponent range of binary64 is not modelled (overflow above \<open>2^1024\<close>, subnormal numbers
  below \<open>2^-1022\<close>): the quotients and products of \<^verbatim>\<open>generateStatsSummary\<close> are zero or lie
  between \<open>2^-53\<close> and \<open>101\<close>. Counts are not negative.
\<close>

function scaleUp :: "rat \<Rightarrow> nat \<Rightarrow> nat" where
  "scaleUp q p = (if q \<le> 0 \<or> p = 0 \<or> 2 ^ 52 \<le> q * of_nat p then p else scaleUp q (2 * p))"
  by pat_completeness auto
termination
proof (relation "measure (\<lambda>(q, p). nat \<lceil>2 ^ 52 / q\<rceil> - p)")
  show "wf (measure (\<lambda>(q, p). nat \<lceil>2 ^ 52 / q\<rceil> - p))"
    by simp
next
  fix q :: rat and p :: nat
  assume a: "\<not> (q \<le> 0 \<or> p = 0 \<or> 2 ^ 52 \<le> q * of_nat p)"
  then have q: "0 < q" and p: "0 < p" and lt: "q * of_nat p < 2 ^ 52"
    by auto
  from lt q have "of_nat p < 2 ^ 52 / q"
    by (simp add: pos_less_divide_eq mult.commute)
  also have "\<dots> \<le> of_int \<lceil>2 ^ 52 / q\<rceil>"
    by (rule le_of_int_ceiling)
  finally have "int p < \<lceil>2 ^ 52 / q\<rceil>"
    by (metis of_int_less_iff of_int_of_nat_eq)
  then have "p < nat \<lceil>2 ^ 52 / q\<rceil>"
    by simp
  with p show "((q, 2 * p), (q, p)) \<in> measure (\<lambda>(q, p). nat \<lceil>2 ^ 52 / q\<rceil> - p)"
    by simp
qed

function scaleDown :: "rat \<Rightarrow> nat \<Rightarrow> nat" where
  "scaleDown q p = (if p = 0 \<or> q < 2 ^ 53 * of_nat p then p else scaleDown q (2 * p))"
  by pat_completeness auto
termination
proof (relation "measure (\<lambda>(q, p). nat \<lceil>q\<rceil> - p)")
  show "wf (measure (\<lambda>(q, p). nat \<lceil>q\<rceil> - p))"
    by simp
next
  fix q :: rat and p :: nat
  assume a: "\<not> (p = 0 \<or> q < 2 ^ 53 * of_nat p)"
  then have p: "0 < p" and ge: "2 ^ 53 * of_nat p \<le> q"
    by auto
  from p have "(of_nat p :: rat) < 2 ^ 53 * of_nat p"
    by simp
  also note ge
  also have "q \<le> of_int \<lceil>q\<rceil>"
    by (rule le_of_int_ceiling)
  finally have "int p < \<lceil>q\<rceil>"
    by (metis of_int_less_iff of_int_of_nat_eq)
  then have "p < nat \<lceil>q\<rceil>"
    by simp
  with p show "((q, 2 * p), (q, p)) \<in> measure (\<lambda>(q, p). nat \<lceil>q\<rceil> - p)"
    by simp
qed

definition toDouble :: "rat \<Rightarrow> rat" where
  "toDouble q =
     (if q \<le> 0 then 0
      else if q < 2 ^ 53
        then (let p = scaleUp q 1 in of_int (roundEven (q * of_nat p)) / of_nat p)
        else (let p = scaleDown q 1 in of_int (roundEven (q / of_nat p)) * of_nat p))"

text \<open>
  \<^verbatim>\<open>Number.prototype.toFixed(fractionDigits)\<close> for \<open>0 \<le> x < 10^21\<close>: \<open>n\<close> is the integer for
  which \<open>n / 10^fractionDigits - x\<close> is as close to zero as possible, the larger \<open>n\<close> if there
  are two; the result is the decimal digits of \<open>n\<close>, padded on the left with zeros to
  \<open>fractionDigits + 1\<close> digits, with a point before the last \<open>fractionDigits\<close> digits.
\<close>

function decimal :: "nat \<Rightarrow> jsstring" where
  "decimal n = (if n < 10 then [48 + n] else decimal (n div 10) @ [48 + n mod 10])"
  by pat_completeness auto
termination
  by (relation "measure id") auto

definition toFixed :: "rat \<Rightarrow> nat \<Rightarrow> jsstring" where
  "toFixed x fractionDigits =
     (let n = nat \<lfloor>x * 10 ^ fractionDigits + 1 / 2\<rfloor>;
          m = decimal n;
          m = replicate (fractionDigits + 1 - length m) 48 @ m
      in if fractionDigits = 0 then m
         else take (length m - fractionDigits) m @ js ''.'' @ drop (length m - fractionDigits) m)"

text \<open>
  \<^verbatim>\<open>(count / total * 100).toFixed(1)\<close>: a division and a multiplication of doubles, each
  rounded, and the text of the result.
\<close>

definition percentage :: "nat \<Rightarrow> nat \<Rightarrow> jsstring" where
  "percentage part whole = toFixed (toDouble (toDouble (of_nat part / of_nat whole) * 100)) 1"

section \<open>Properties\<close>

subsection \<open>Evaluation of the recursive string functions\<close>

text \<open>
  The equations of the functions defined by general recursion unfold without end on a
  symbolic argument; they are used only where named.
\<close>

declare splitStr.simps [simp del] replaceAll.simps [simp del] replaceSpaced.simps [simp del]
  execAll.simps [simp del] replaceWithWord.simps [simp del] collapseMarkers.simps [simp del]
  splitSpaces.simps [simp del]

declare scaleUp.simps [simp del] scaleDown.simps [simp del] decimal.simps [simp del]

lemmas string_defs = startsWith_def js_def trim_def isWhiteSpace_def

lemmas tagged_defs = filteredMatches_def overlaps_def allMatches_def patterns_def matchHere_def
  execAll.simps Let_def

lemmas match_defs = processMatch_def withStripped_def toLowerCase_def placeholder_def
  processVocalistName_def replaceAll.simps Let_def

lemmas clean_defs = cleanRemaining_def placeholder_def stripLeadingAmp_def stripDelimiters_def
  isDelimiter_def replaceAll.simps Let_def

lemmas untagged_defs = parseUntaggedText_def normalizeDelimiters_def dropLeadingMarker_def
  toLowerCase_def splitIntoSegments_def split_def cleanSegment_def stripParens_def
  processVocalistName_def replaceSpaced.simps replaceWithWord.simps collapseMarkers.simps
  splitStr.simps replaceAll.simps

lemmas line_defs = processLine_def sectionMatch_def attribute_def isOpen_def recordLine_def
  getProp_def objectPrototypeKeys_def assign_def determineVocalist_def entries_def keys_def
  isArrayIndex_def isDigit_def indexValue_def plainOrFirst_def findFormat_def closeTagMatch_def
  Let_def

lemmas count_defs = wordCount_def splitSpaces.simps

lemmas marker_defs = sectionMatch_def closeTagMatch_def objectPrototypeKeys_def

lemmas summary_defs = generateStatsSummary_def values_of_def keys_def entries_def isArrayIndex_def
  isDigit_def indexValue_def assign_def js_def Let_def

lemmas double_defs = percentage_def toDouble_def roundEven_def scaleUp.simps scaleDown.simps
  toFixed_def decimal.simps js_def Let_def

subsection \<open>Objects\<close>

lemma map_of_putProp: "map_of (putProp obj k v) k = Some v"
  by (induction obj k v rule: putProp.induct) auto

lemma map_of_putProp_other: "k' \<noteq> k \<Longrightarrow> map_of (putProp obj k v) k' = map_of obj k'"
  by (induction obj k v rule: putProp.induct) auto

lemma putProp_keys: "fst ` set (putProp obj k v) = insert k (fst ` set obj)"
  by (induction obj k v rule: putProp.induct) auto

lemma putProp_entries: "set (putProp obj k v) \<subseteq> insert (k, v) (set obj)"
  by (induction obj k v rule: putProp.induct) auto

lemma assign_keys: "fst ` set (assign obj k v) \<subseteq> insert k (fst ` set obj)"
  by (auto simp: assign_def putProp_keys)

lemma assign_keys_eq:
  "fst ` set (assign obj k v) = (if k = js ''__proto__'' then fst ` set obj else insert k (fst ` set obj))"
  by (simp add: assign_def putProp_keys)

lemma assign_entries: "set (assign obj k v) \<subseteq> insert (k, v) (set obj)"
  using putProp_entries [of obj k v] by (auto simp: assign_def)

lemma foldl_assign_keys:
  "fst ` set (foldl (\<lambda>obj v. assign obj (fst v) (snd v)) obj vs) \<subseteq> fst ` set obj \<union> fst ` set vs"
proof (induction vs arbitrary: obj)
  case Nil
  show ?case by simp
next
  case (Cons v vs)
  have "fst ` set (foldl (\<lambda>obj v. assign obj (fst v) (snd v)) (assign obj (fst v) (snd v)) vs)
      \<subseteq> fst ` set (assign obj (fst v) (snd v)) \<union> fst ` set vs"
    by (rule Cons.IH)
  also have "\<dots> \<subseteq> insert (fst v) (fst ` set obj) \<union> fst ` set vs"
    using assign_keys [of obj "fst v" "snd v"] by auto
  finally show ?case by auto
qed

lemma foldl_assign_keys_eq:
  "fst ` set (foldl (\<lambda>obj e. assign obj (fst e) (g e)) obj es) =
     fst ` set obj \<union> (fst ` set es - {js ''__proto__''})"
proof (induction es arbitrary: obj)
  case Nil
  show ?case by simp
next
  case (Cons e es)
  show ?case
    by (auto simp: Cons.IH assign_keys_eq)
qed

lemma foldl_assign_values:
  assumes "\<forall>p \<in> snd ` set obj. Q p" and "\<forall>e \<in> set es. Q (g e)"
  shows "\<forall>p \<in> snd ` set (foldl (\<lambda>obj e. assign obj (fst e) (g e)) obj es). Q p"
  using assms
proof (induction es arbitrary: obj)
  case Nil
  then show ?case by simp
next
  case (Cons e es)
  have "\<forall>p \<in> snd ` set (assign obj (fst e) (g e)). Q p"
    using assign_entries [of obj "fst e" "g e"] Cons.prems by fastforce
  with Cons show ?case
    by simp
qed

lemma length_entries: "length (entries obj) = length obj"
  by (simp add: entries_def sum_length_filter_compl)

lemma keys_empty: "keys obj = [] \<longleftrightarrow> obj = []"
  using length_entries [of obj] by (simp add: keys_def del: length_0_conv flip: length_0_conv)

lemma entries_single: "entries [(X, f)] = [(X, f)]"
  by (simp add: entries_def)

lemma set_entries: "set (entries obj) = set obj"
  by (auto simp: entries_def)

subsection \<open>The statistics update\<close>

lemma recordLine_total: "\<exists>vs'. recordLine vs v wc = Inr vs'"
proof (cases "getProp vs v")
  case (Own st)
  then show ?thesis by (simp add: recordLine_def)
next
  case Inherited
  then show ?thesis by (simp add: recordLine_def)
next
  case Undefined
  then have "v \<notin> set objectPrototypeKeys"
    by (auto simp: getProp_def split: option.splits if_splits)
  then have "v \<noteq> js ''__proto__''"
    by (auto simp: objectPrototypeKeys_def)
  then have "getProp (assign vs v \<lparr>lines = 0, words = 0\<rparr>) v = Own \<lparr>lines = 0, words = 0\<rparr>"
    by (simp add: assign_def getProp_def map_of_putProp)
  with Undefined show ?thesis
    by (simp add: recordLine_def)
qed

lemma recordLine_counts:
  assumes "X \<notin> set objectPrototypeKeys"
  shows "\<exists>vs'. recordLine vs X wc = Inr vs' \<and>
     map_of vs' X = Some (case map_of vs X of
        None \<Rightarrow> \<lparr>lines = 1, words = wc\<rparr>
      | Some st \<Rightarrow> st\<lparr>lines := lines st + 1, words := words st + wc\<rparr>)"
proof (cases "map_of vs X")
  case None
  from assms have "X \<noteq> js ''__proto__''"
    by (auto simp: objectPrototypeKeys_def)
  with None assms show ?thesis
    by (simp add: recordLine_def getProp_def assign_def map_of_putProp)
next
  case (Some st)
  then show ?thesis
    by (simp add: recordLine_def getProp_def map_of_putProp)
qed

lemma recordLine_others:
  assumes "recordLine vs v wc = Inr vs'" and "v' \<noteq> v"
  shows "map_of vs' v' = map_of vs v'"
  using assms
  by (auto simp: recordLine_def getProp_def assign_def Let_def map_of_putProp map_of_putProp_other
      split: option.splits if_splits)

lemma recordLine_inherited:
  assumes "recordLine vs v wc = Inr vs'" and "v \<in> set objectPrototypeKeys" and "map_of vs v = None"
  shows "vs' = vs"
  using assms by (simp add: recordLine_def getProp_def)

subsection \<open>Names produced by parseVocalists are not empty\<close>

lemma replaceAll_eq_Nil: "rep \<noteq> [] \<Longrightarrow> replaceAll pat rep s = [] \<longleftrightarrow> s = []"
  by (subst replaceAll.simps) simp

lemma processVocalistName_eq_Nil [simp]:
  "processVocalistName c = [] \<longleftrightarrow> c = []"
  "[] = processVocalistName c \<longleftrightarrow> c = []"
  using replaceAll_eq_Nil [of "js ''&''" "js ''&amp;''" c]
  by (auto simp: processVocalistName_def js_def)

lemma processMatch_names:
  "[] \<notin> fst ` set (fst st) \<Longrightarrow> [] \<notin> fst ` set (fst (processMatch st m))"
  by (auto simp: processMatch_def Let_def)

lemma foldl_processMatch_names:
  "[] \<notin> fst ` set (fst st) \<Longrightarrow> [] \<notin> fst ` set (fst (foldl processMatch st ms))"
proof (induction ms arbitrary: st)
  case Nil
  then show ?case by simp
next
  case (Cons m ms)
  from Cons.prems have "[] \<notin> fst ` set (fst (processMatch st m))"
    by (rule processMatch_names)
  then show ?case
    using Cons.IH by simp
qed

lemma extractTaggedVocalists_names: "[] \<notin> fst ` set (fst (extractTaggedVocalists text))"
  using foldl_processMatch_names [of "([], text)" "filteredMatches text"]
  by (simp add: extractTaggedVocalists_def workingTextOf_def Let_def)

lemma parseUntaggedText_names: "[] \<notin> fst ` set (parseUntaggedText text)"
  by (auto simp: parseUntaggedText_def)

lemma parseVocalists_names: "[] \<notin> fst ` set (parseVocalists vocalistsPart)"
proof -
  let ?t = "extractTaggedVocalists vocalistsPart"
  let ?a = "\<lambda>obj v. assign obj (fst v) (snd v)"
  have "fst ` set (parseVocalists vocalistsPart)
      \<subseteq> fst ` set (foldl ?a [] (fst ?t)) \<union> fst ` set (parseUntaggedText (snd ?t))"
    unfolding parseVocalists_def Let_def by (rule foldl_assign_keys)
  moreover have "fst ` set (foldl ?a [] (fst ?t)) \<subseteq> fst ` set (fst ?t)"
    using foldl_assign_keys [of "[]" "fst ?t"] by simp
  ultimately show ?thesis
    using extractTaggedVocalists_names [of vocalistsPart]
      parseUntaggedText_names [of "snd ?t"] by blast
qed

subsection \<open>Spans over several lines\<close>

lemma determineVocalist_single: "determineVocalist t [(X, f)] = X"
  by (cases f) (simp_all add: determineVocalist_def entries_single plainOrFirst_def findFormat_def Let_def)

lemma lyric_line_step:
  assumes "trim l \<noteq> []" and "sectionMatch (trim l) = None" and "currentVocalists s \<noteq> []"
    and "attribute s (trim l) = (v, tag, tv)"
  shows "\<exists>vs'. recordLine (vstats s) v (wordCount (trim l)) = Inr vs' \<and>
     processLine s l =
       Inr (s\<lparr>result := result s @ [\<lparr>vocalist = v, line = trim l\<rparr>], vstats := vs',
              openFormattingTag := tag, openTagVocalist := tv\<rparr>)"
proof -
  obtain vs' where "recordLine (vstats s) v (wordCount (trim l)) = Inr vs'"
    using recordLine_total by blast
  with assms show ?thesis
    by (simp add: processLine_def keys_empty Let_def)
qed

lemma attribute_open:
  assumes "openFormattingTag s = Some tag" and "openTagVocalist s = Some v"
    and "tag \<noteq> []" and "v \<noteq> []"
  shows "attribute s t =
     (if includesStr t (js ''</'' @ tag @ js ''>'') then (v, None, None)
      else (v, Some tag, Some v))"
  using assms by (simp add: attribute_def isOpen_def)

lemma attribute_closed:
  assumes "openFormattingTag s = None" and "openTagVocalist s = None"
  shows "attribute s t =
     (determineVocalist t (currentVocalists s),
      if openTagMatch t \<noteq> None \<and> \<not> closeTagMatch t
      then (openTagMatch t, Some (determineVocalist t (currentVocalists s)))
      else (None, None))"
  using assms by (auto simp: attribute_def isOpen_def Let_def split: option.splits)

lemma close_marker_b: "js ''</'' @ js ''b'' @ js ''>'' = js ''</b>''"
  by (simp add: js_def)

lemma open_line_step:
  assumes "openFormattingTag s = Some tag" and "openTagVocalist s = Some v"
    and "tag \<noteq> []" and "v \<noteq> []" and "currentVocalists s \<noteq> []"
    and "trim l \<noteq> []" and "sectionMatch (trim l) = None"
  shows "\<exists>vs'. recordLine (vstats s) v (wordCount (trim l)) = Inr vs' \<and>
     processLine s l =
       Inr (s\<lparr>result := result s @ [\<lparr>vocalist = v, line = trim l\<rparr>], vstats := vs',
              openFormattingTag :=
                (if includesStr (trim l) (js ''</'' @ tag @ js ''>'') then None else Some tag),
              openTagVocalist :=
                (if includesStr (trim l) (js ''</'' @ tag @ js ''>'') then None else Some v)\<rparr>)"
proof -
  have att: "attribute s (trim l) =
      (v, if includesStr (trim l) (js ''</'' @ tag @ js ''>'') then None else Some tag,
          if includesStr (trim l) (js ''</'' @ tag @ js ''>'') then None else Some v)"
    using assms(1-4) by (simp add: attribute_open)
  show ?thesis
    by (rule lyric_line_step [OF assms(6) assms(7) assms(5) att])
qed

lemma three_line_span:
  assumes vmap: "currentVocalists s = parseVocalists vp" "parseVocalists vp = [(X, Bold)]"
    and closed: "openFormattingTag s = None" "openTagVocalist s = None"
    and lyric: "\<forall>l \<in> {l1, l2, l3}. trim l \<noteq> [] \<and> sectionMatch (trim l) = None"
    and first: "openTagMatch (trim l1) = Some (js ''b'')" "\<not> closeTagMatch (trim l1)"
    and second: "\<not> includesStr (trim l2) (js ''</b>'')"
    and third: "includesStr (trim l3) (js ''</b>'')"
  shows "\<exists>s'. processLines s [l1, l2, l3] = Inr s' \<and>
     result s' = result s @ [\<lparr>vocalist = X, line = trim l1\<rparr>, \<lparr>vocalist = X, line = trim l2\<rparr>,
                             \<lparr>vocalist = X, line = trim l3\<rparr>] \<and>
     openFormattingTag s' = None \<and> openTagVocalist s' = None \<and>
     currentVocalists s' = currentVocalists s \<and>
     (X \<notin> set objectPrototypeKeys \<and> map_of (vstats s) X = None \<longrightarrow>
        map_of (vstats s') X =
          Some \<lparr>lines = 3,
                words = wordCount (trim l1) + wordCount (trim l2) + wordCount (trim l3)\<rparr>)"
proof -
  have cv: "currentVocalists s = [(X, Bold)]"
    using vmap by simp
  have "[] \<notin> fst ` set (parseVocalists vp)"
    by (rule parseVocalists_names)
  then have X: "X \<noteq> []"
    using vmap(2) by auto
  have b: "js ''b'' \<noteq> []"
    by (simp add: js_def)
  have a1: "attribute s (trim l1) = (X, Some (js ''b''), Some X)"
    using closed first by (simp add: attribute_closed cv determineVocalist_single)
  from lyric have "trim l1 \<noteq> []" "sectionMatch (trim l1) = None"
    by simp_all
  moreover have "currentVocalists s \<noteq> []"
    using cv by simp
  ultimately obtain vs1 where r1: "recordLine (vstats s) X (wordCount (trim l1)) = Inr vs1"
    and p1: "processLine s l1 =
      Inr (s\<lparr>result := result s @ [\<lparr>vocalist = X, line = trim l1\<rparr>], vstats := vs1,
             openFormattingTag := Some (js ''b''), openTagVocalist := Some X\<rparr>)"
    using lyric_line_step [OF _ _ _ a1] by blast
  let ?s1 = "s\<lparr>result := result s @ [\<lparr>vocalist = X, line = trim l1\<rparr>], vstats := vs1,
             openFormattingTag := Some (js ''b''), openTagVocalist := Some X\<rparr>"
  from lyric have l2: "trim l2 \<noteq> []" "sectionMatch (trim l2) = None"
    by simp_all
  have "\<exists>vs'. recordLine (vstats ?s1) X (wordCount (trim l2)) = Inr vs' \<and>
     processLine ?s1 l2 =
       Inr (?s1\<lparr>result := result ?s1 @ [\<lparr>vocalist = X, line = trim l2\<rparr>], vstats := vs',
              openFormattingTag :=
                (if includesStr (trim l2) (js ''</'' @ js ''b'' @ js ''>'') then None
                 else Some (js ''b'')),
              openTagVocalist :=
                (if includesStr (trim l2) (js ''</'' @ js ''b'' @ js ''>'') then None
                 else Some X)\<rparr>)"
    using b X cv l2 by (intro open_line_step) simp_all
  then obtain vs2 where r2: "recordLine vs1 X (wordCount (trim l2)) = Inr vs2"
    and p2: "processLine ?s1 l2 =
      Inr (s\<lparr>result := result s @ [\<lparr>vocalist = X, line = trim l1\<rparr>,
                                      \<lparr>vocalist = X, line = trim l2\<rparr>],
             vstats := vs2,
             openFormattingTag := Some (js ''b''), openTagVocalist := Some X\<rparr>)"
    using second by (auto simp: close_marker_b)
  let ?s2 = "s\<lparr>result := result s @ [\<lparr>vocalist = X, line = trim l1\<rparr>,
                                      \<lparr>vocalist = X, line = trim l2\<rparr>],
             vstats := vs2,
             openFormattingTag := Some (js ''b''), openTagVocalist := Some X\<rparr>"
  from lyric have l3: "trim l3 \<noteq> []" "sectionMatch (trim l3) = None"
    by simp_all
  have "\<exists>vs'. recordLine (vstats ?s2) X (wordCount (trim l3)) = Inr vs' \<and>
     processLine ?s2 l3 =
       Inr (?s2\<lparr>result := result ?s2 @ [\<lparr>vocalist = X, line = trim l3\<rparr>], vstats := vs',
              openFormattingTag :=
                (if includesStr (trim l3) (js ''</'' @ js ''b'' @ js ''>'') then None
                 else Some (js ''b'')),
              openTagVocalist :=
                (if includesStr (trim l3) (js ''</'' @ js ''b'' @ js ''>'') then None
                 else Some X)\<rparr>)"
    using b X cv l3 by (intro open_line_step) simp_all
  then obtain vs3 where r3: "recordLine vs2 X (wordCount (trim l3)) = Inr vs3"
    and p3: "processLine ?s2 l3 =
      Inr (s\<lparr>result := result s @ [\<lparr>vocalist = X, line = trim l1\<rparr>,
                                      \<lparr>vocalist = X, line = trim l2\<rparr>,
                                      \<lparr>vocalist = X, line = trim l3\<rparr>],
             vstats := vs3,
             openFormattingTag := None, openTagVocalist := None\<rparr>)"
    using third by (auto simp: close_marker_b)
  let ?s3 = "s\<lparr>result := result s @ [\<lparr>vocalist = X, line = trim l1\<rparr>,
                                      \<lparr>vocalist = X, line = trim l2\<rparr>,
                                      \<lparr>vocalist = X, line = trim l3\<rparr>],
             vstats := vs3,
             openFormattingTag := None, openTagVocalist := None\<rparr>"
  have run: "processLines s [l1, l2, l3] = Inr ?s3"
    by (simp add: p1 p2 p3)
  have counts: "map_of vs3 X =
      Some \<lparr>lines = 3, words = wordCount (trim l1) + wordCount (trim l2) + wordCount (trim l3)\<rparr>"
    if "X \<notin> set objectPrototypeKeys" and "map_of (vstats s) X = None"
  proof -
    from recordLine_counts [OF that(1), of "vstats s" "wordCount (trim l1)"] r1 that(2)
    have 1: "map_of vs1 X = Some \<lparr>lines = 1, words = wordCount (trim l1)\<rparr>"
      by auto
    from recordLine_counts [OF that(1), of vs1 "wordCount (trim l2)"] r2 1
    have 2: "map_of vs2 X = Some \<lparr>lines = 2, words = wordCount (trim l1) + wordCount (trim l2)\<rparr>"
      by auto
    from recordLine_counts [OF that(1), of vs2 "wordCount (trim l3)"] r3 2
    show ?thesis
      by auto
  qed
  show ?thesis
    using run counts by (intro exI [of _ ?s3]) simp
qed

text \<open>
  C1 (as amended). Let the active map be the result of \<^verbatim>\<open>parseVocalists\<close> and consist of
  the one entry \<open>X\<close> with format bold, let no tag be open, and let \<open>l1\<close>, \<open>l2\<close>, \<open>l3\<close> be
  non-blank lines that are not headers, where the leftmost opening marker of \<open>l1\<close> is
  \<^verbatim>\<open><b>\<close> and \<open>l1\<close> has no closing marker, \<open>l2\<close> does not contain \<^verbatim>\<open></b>\<close> and \<open>l3\<close>
  contains it. Then the loop attributes the three lines to \<open>X\<close>, no tag is open after the
  third line, and, where \<open>X\<close> is not the name of a member of \<^verbatim>\<open>Object.prototype\<close> and has
  no statistics yet, \<^verbatim>\<open>vocalistStats\<close> records three lines for \<open>X\<close>. In general, in a
  state with an open tag and a remembered vocalist (and a non-empty map), a lyric line is
  attributed to the remembered vocalist, and the tag is closed after the line exactly when
  the line contains the closing marker of that tag.
\<close>

theorem multi_line_span:
  "(currentVocalists s = parseVocalists vp \<and> parseVocalists vp = [(X, Bold)] \<and>
    openFormattingTag s = None \<and> openTagVocalist s = None \<and>
    (\<forall>l \<in> {l1, l2, l3}. trim l \<noteq> [] \<and> sectionMatch (trim l) = None) \<and>
    openTagMatch (trim l1) = Some (js ''b'') \<and> \<not> closeTagMatch (trim l1) \<and>
    \<not> includesStr (trim l2) (js ''</b>'') \<and> includesStr (trim l3) (js ''</b>'')
    \<longrightarrow>
    (\<exists>s'. processLines s [l1, l2, l3] = Inr s' \<and>
       result s' = result s @ [\<lparr>vocalist = X, line = trim l1\<rparr>, \<lparr>vocalist = X, line = trim l2\<rparr>,
                               \<lparr>vocalist = X, line = trim l3\<rparr>] \<and>
       openFormattingTag s' = None \<and> openTagVocalist s' = None \<and>
       currentVocalists s' = currentVocalists s \<and>
       (X \<notin> set objectPrototypeKeys \<and> map_of (vstats s) X = None \<longrightarrow>
          map_of (vstats s') X =
            Some \<lparr>lines = 3,
                  words = wordCount (trim l1) + wordCount (trim l2) + wordCount (trim l3)\<rparr>)))
   \<and>
   (openFormattingTag t = Some tag \<and> openTagVocalist t = Some v \<and> tag \<noteq> [] \<and> v \<noteq> [] \<and>
    currentVocalists t \<noteq> [] \<and> trim l \<noteq> [] \<and> sectionMatch (trim l) = None
    \<longrightarrow>
    (\<exists>t'. processLine t l = Inr t' \<and>
       result t' = result t @ [\<lparr>vocalist = v, line = trim l\<rparr>] \<and>
       currentVocalists t' = currentVocalists t \<and>
       (includesStr (trim l) (js ''</'' @ tag @ js ''>'') \<longrightarrow>
          openFormattingTag t' = None \<and> openTagVocalist t' = None) \<and>
       (\<not> includesStr (trim l) (js ''</'' @ tag @ js ''>'') \<longrightarrow>
          openFormattingTag t' = Some tag \<and> openTagVocalist t' = Some v)))"
proof (intro conjI impI)
  assume "currentVocalists s = parseVocalists vp \<and> parseVocalists vp = [(X, Bold)] \<and>
    openFormattingTag s = None \<and> openTagVocalist s = None \<and>
    (\<forall>l \<in> {l1, l2, l3}. trim l \<noteq> [] \<and> sectionMatch (trim l) = None) \<and>
    openTagMatch (trim l1) = Some (js ''b'') \<and> \<not> closeTagMatch (trim l1) \<and>
    \<not> includesStr (trim l2) (js ''</b>'') \<and> includesStr (trim l3) (js ''</b>'')"
  then show "\<exists>s'. processLines s [l1, l2, l3] = Inr s' \<and>
       result s' = result s @ [\<lparr>vocalist = X, line = trim l1\<rparr>, \<lparr>vocalist = X, line = trim l2\<rparr>,
                               \<lparr>vocalist = X, line = trim l3\<rparr>] \<and>
       openFormattingTag s' = None \<and> openTagVocalist s' = None \<and>
       currentVocalists s' = currentVocalists s \<and>
       (X \<notin> set objectPrototypeKeys \<and> map_of (vstats s) X = None \<longrightarrow>
          map_of (vstats s') X =
            Some \<lparr>lines = 3,
                  words = wordCount (trim l1) + wordCount (trim l2) + wordCount (trim l3)\<rparr>)"
    by (intro three_line_span [of s vp]) simp_all
next
  assume "openFormattingTag t = Some tag \<and> openTagVocalist t = Some v \<and> tag \<noteq> [] \<and> v \<noteq> [] \<and>
    currentVocalists t \<noteq> [] \<and> trim l \<noteq> [] \<and> sectionMatch (trim l) = None"
  then have "\<exists>vs'. recordLine (vstats t) v (wordCount (trim l)) = Inr vs' \<and>
     processLine t l =
       Inr (t\<lparr>result := result t @ [\<lparr>vocalist = v, line = trim l\<rparr>], vstats := vs',
              openFormattingTag :=
                (if includesStr (trim l) (js ''</'' @ tag @ js ''>'') then None else Some tag),
              openTagVocalist :=
                (if includesStr (trim l) (js ''</'' @ tag @ js ''>'') then None else Some v)\<rparr>)"
    by (intro open_line_step) simp_all
  then show "\<exists>t'. processLine t l = Inr t' \<and>
       result t' = result t @ [\<lparr>vocalist = v, line = trim l\<rparr>] \<and>
       currentVocalists t' = currentVocalists t \<and>
       (includesStr (trim l) (js ''</'' @ tag @ js ''>'') \<longrightarrow>
          openFormattingTag t' = None \<and> openTagVocalist t' = None) \<and>
       (\<not> includesStr (trim l) (js ''</'' @ tag @ js ''>'') \<longrightarrow>
          openFormattingTag t' = Some tag \<and> openTagVocalist t' = Some v)"
    by auto
qed

lemma parse_bold_singer:
  "parseVocalists (js ''<b>Test Singer</b>'') = [(js ''Test Singer'', Bold)]"
proof -
  have m: "filteredMatches (js ''<b>Test Singer</b>'') =
     [\<lparr>fullMatch = js ''<b>Test Singer</b>'', content = js ''Test Singer'', format = Bold,
       start = 0, end_pos = 18\<rparr>]"
    by (simp add: tagged_defs string_defs split del: if_split)
  have w: "workingTextOf (js ''<b>Test Singer</b>'') =
     ([(js ''Test Singer'', Bold)], js ''|||REMOVED|||'')"
    unfolding workingTextOf_def m by (simp add: match_defs string_defs split del: if_split)
  have c: "cleanRemaining (js ''|||REMOVED|||'') = []"
    by (simp add: clean_defs string_defs split del: if_split)
  have e: "extractTaggedVocalists (js ''<b>Test Singer</b>'') = ([(js ''Test Singer'', Bold)], [])"
    unfolding extractTaggedVocalists_def w by (simp add: c)
  show ?thesis
    unfolding parseVocalists_def e by (simp add: parseUntaggedText_def) (simp add: assign_def js_def)
qed

theorem multi_line_span_witness:
  "(\<exists>s'. processLines
       \<lparr>result = [], vstats = [], currentVocalists = [(js ''Test Singer'', Bold)],
        openFormattingTag = None, openTagVocalist = None\<rparr>
       [js ''<b>Start of formatted section'', js ''This continues the formatting'',
        js ''End of section</b>''] = Inr s' \<and>
     result s' =
       [\<lparr>vocalist = js ''Test Singer'', line = js ''<b>Start of formatted section''\<rparr>,
        \<lparr>vocalist = js ''Test Singer'', line = js ''This continues the formatting''\<rparr>,
        \<lparr>vocalist = js ''Test Singer'', line = js ''End of section</b>''\<rparr>] \<and>
     openFormattingTag s' = None \<and> openTagVocalist s' = None \<and>
     map_of (vstats s') (js ''Test Singer'') = Some \<lparr>lines = 3, words = 11\<rparr>) \<and>
   (\<exists>t'. processLine
       \<lparr>result = [], vstats = [], currentVocalists = [(js ''Test Singer'', Bold)],
        openFormattingTag = Some (js ''b''), openTagVocalist = Some (js ''Test Singer'')\<rparr>
       (js ''This continues the formatting'') = Inr t' \<and>
     result t' =
       [\<lparr>vocalist = js ''Test Singer'', line = js ''This continues the formatting''\<rparr>] \<and>
     openFormattingTag t' = Some (js ''b'') \<and> openTagVocalist t' = Some (js ''Test Singer''))"
proof -
  let ?s = "\<lparr>result = [], vstats = [], currentVocalists = [(js ''Test Singer'', Bold)],
        openFormattingTag = None, openTagVocalist = None\<rparr>"
  let ?t = "\<lparr>result = [], vstats = [], currentVocalists = [(js ''Test Singer'', Bold)],
        openFormattingTag = Some (js ''b''), openTagVocalist = Some (js ''Test Singer'')\<rparr>"
  let ?l1 = "js ''<b>Start of formatted section''"
  let ?l2 = "js ''This continues the formatting''"
  let ?l3 = "js ''End of section</b>''"
  have tr: "trim ?l1 = ?l1" "trim ?l2 = ?l2" "trim ?l3 = ?l3"
    by (simp_all add: string_defs)
  have wc: "wordCount ?l1 = 4" "wordCount ?l2 = 4" "wordCount ?l3 = 3"
    by (simp_all add: count_defs string_defs split del: if_split)
  have h1: "currentVocalists ?s = parseVocalists (js ''<b>Test Singer</b>'') \<and>
      parseVocalists (js ''<b>Test Singer</b>'') = [(js ''Test Singer'', Bold)] \<and>
      openFormattingTag ?s = None \<and> openTagVocalist ?s = None \<and>
      (\<forall>l \<in> {?l1, ?l2, ?l3}. trim l \<noteq> [] \<and> sectionMatch (trim l) = None) \<and>
      openTagMatch (trim ?l1) = Some (js ''b'') \<and> \<not> closeTagMatch (trim ?l1) \<and>
      \<not> includesStr (trim ?l2) (js ''</b>'') \<and> includesStr (trim ?l3) (js ''</b>'')"
    unfolding tr by (simp add: parse_bold_singer) (simp add: marker_defs string_defs)
  have h1': "js ''Test Singer'' \<notin> set objectPrototypeKeys \<and>
      map_of (vstats ?s) (js ''Test Singer'') = None"
    by (simp add: marker_defs js_def)
  have h2: "openFormattingTag ?t = Some (js ''b'') \<and>
      openTagVocalist ?t = Some (js ''Test Singer'') \<and> js ''b'' \<noteq> [] \<and>
      js ''Test Singer'' \<noteq> [] \<and> currentVocalists ?t \<noteq> [] \<and> trim ?l2 \<noteq> [] \<and>
      sectionMatch (trim ?l2) = None"
    unfolding tr by (simp add: marker_defs string_defs)
  have n: "\<not> includesStr (trim ?l2) (js ''</'' @ js ''b'' @ js ''>'')"
    unfolding tr by (simp add: string_defs)
  note inst = multi_line_span [of ?s "js ''<b>Test Singer</b>''" "js ''Test Singer''" ?l1 ?l2 ?l3
      ?t "js ''b''" "js ''Test Singer''" ?l2]
  from inst [THEN conjunct1, rule_format, OF h1] h1'
  have 1: "\<exists>s'. processLines ?s [?l1, ?l2, ?l3] = Inr s' \<and>
     result s' =
       [\<lparr>vocalist = js ''Test Singer'', line = ?l1\<rparr>,
        \<lparr>vocalist = js ''Test Singer'', line = ?l2\<rparr>,
        \<lparr>vocalist = js ''Test Singer'', line = ?l3\<rparr>] \<and>
     openFormattingTag s' = None \<and> openTagVocalist s' = None \<and>
     map_of (vstats s') (js ''Test Singer'') = Some \<lparr>lines = 3, words = 11\<rparr>"
    unfolding tr wc by auto
  from inst [THEN conjunct2, rule_format, OF h2] n
  have 2: "\<exists>t'. processLine ?t ?l2 = Inr t' \<and>
     result t' = [\<lparr>vocalist = js ''Test Singer'', line = ?l2\<rparr>] \<and>
     openFormattingTag t' = Some (js ''b'') \<and> openTagVocalist t' = Some (js ''Test Singer'')"
    unfolding tr by auto
  from 1 2 show ?thesis
    by (rule conjI)
qed

text \<open>
  The claim as stated asks only that the first line contains \<^verbatim>\<open><b>\<close>. Where an
  \<^verbatim>\<open><i>\<close> stands before it, the remembered tag is \<^verbatim>\<open>i\<close>, and the \<^verbatim>\<open></b>\<close> of the
  third line does not close it: the three lines are attributed to the bold vocalist, but a
  tag is still open after the third line.
\<close>

theorem leftmost_marker_counterexample:
  "includesStr (js ''<i><b>x'') (js ''<b>'') \<and> \<not> closeTagMatch (js ''<i><b>x'') \<and>
   \<not> includesStr (js ''y'') (js ''<b>'') \<and> \<not> includesStr (js ''y'') (js ''</b>'') \<and>
   \<not> includesStr (js ''z</b>'') (js ''<b>'') \<and> includesStr (js ''z</b>'') (js ''</b>'') \<and>
   processLines initialState
     [js ''[Verse 1: <b>Test Singer</b>]'', js ''<i><b>x'', js ''y'', js ''z</b>''] =
   Inr \<lparr>result = [\<lparr>vocalist = js ''Test Singer'', line = js ''<i><b>x''\<rparr>,
                  \<lparr>vocalist = js ''Test Singer'', line = js ''y''\<rparr>,
                  \<lparr>vocalist = js ''Test Singer'', line = js ''z</b>''\<rparr>],
        vstats = [(js ''Test Singer'', \<lparr>lines = 3, words = 3\<rparr>)],
        currentVocalists = [(js ''Test Singer'', Bold)],
        openFormattingTag = Some (js ''i''), openTagVocalist = Some (js ''Test Singer'')\<rparr>"
proof -
  have m: "includesStr (js ''<i><b>x'') (js ''<b>'') \<and> \<not> closeTagMatch (js ''<i><b>x'') \<and>
   \<not> includesStr (js ''y'') (js ''<b>'') \<and> \<not> includesStr (js ''y'') (js ''</b>'') \<and>
   \<not> includesStr (js ''z</b>'') (js ''<b>'') \<and> includesStr (js ''z</b>'') (js ''</b>'')"
    by (simp add: marker_defs string_defs)
  have wc: "wordCount (js ''<i><b>x'') = 1" "wordCount (js ''y'') = 1" "wordCount (js ''z</b>'') = 1"
    by (simp_all add: count_defs string_defs split del: if_split)
  have l0: "processLine initialState (js ''[Verse 1: <b>Test Singer</b>]'') =
      Inr \<lparr>result = [], vstats = [], currentVocalists = [(js ''Test Singer'', Bold)],
           openFormattingTag = None, openTagVocalist = None\<rparr>"
    by (simp add: processLine_def sectionMatch_def initialState_def string_defs)
       (simp add: parse_bold_singer [unfolded js_def, simplified] js_def)
  have l1: "processLine \<lparr>result = [], vstats = [], currentVocalists = [(js ''Test Singer'', Bold)],
           openFormattingTag = None, openTagVocalist = None\<rparr> (js ''<i><b>x'') =
      Inr \<lparr>result = [\<lparr>vocalist = js ''Test Singer'', line = js ''<i><b>x''\<rparr>],
           vstats = [(js ''Test Singer'', \<lparr>lines = 1, words = 1\<rparr>)],
           currentVocalists = [(js ''Test Singer'', Bold)],
           openFormattingTag = Some (js ''i''), openTagVocalist = Some (js ''Test Singer'')\<rparr>"
    by (simp add: line_defs string_defs wc [unfolded js_def, simplified] split del: if_split)
  have l2: "processLine \<lparr>result = [\<lparr>vocalist = js ''Test Singer'', line = js ''<i><b>x''\<rparr>],
           vstats = [(js ''Test Singer'', \<lparr>lines = 1, words = 1\<rparr>)],
           currentVocalists = [(js ''Test Singer'', Bold)],
           openFormattingTag = Some (js ''i''), openTagVocalist = Some (js ''Test Singer'')\<rparr>
         (js ''y'') =
      Inr \<lparr>result = [\<lparr>vocalist = js ''Test Singer'', line = js ''<i><b>x''\<rparr>,
                     \<lparr>vocalist = js ''Test Singer'', line = js ''y''\<rparr>],
           vstats = [(js ''Test Singer'', \<lparr>lines = 2, words = 2\<rparr>)],
           currentVocalists = [(js ''Test Singer'', Bold)],
           openFormattingTag = Some (js ''i''), openTagVocalist = Some (js ''Test Singer'')\<rparr>"
    by (simp add: line_defs string_defs wc [unfolded js_def, simplified] split del: if_split)
  have l3: "processLine \<lparr>result = [\<lparr>vocalist = js ''Test Singer'', line = js ''<i><b>x''\<rparr>,
                     \<lparr>vocalist = js ''Test Singer'', line = js ''y''\<rparr>],
           vstats = [(js ''Test Singer'', \<lparr>lines = 2, words = 2\<rparr>)],
           currentVocalists = [(js ''Test Singer'', Bold)],
           openFormattingTag = Some (js ''i''), openTagVocalist = Some (js ''Test Singer'')\<rparr>
         (js ''z</b>'') =
      Inr \<lparr>result = [\<lparr>vocalist = js ''Test Singer'', line = js ''<i><b>x''\<rparr>,
                     \<lparr>vocalist = js ''Test Singer'', line = js ''y''\<rparr>,
                     \<lparr>vocalist = js ''Test Singer'', line = js ''z</b>''\<rparr>],
           vstats = [(js ''Test Singer'', \<lparr>lines = 3, words = 3\<rparr>)],
           currentVocalists = [(js ''Test Singer'', Bold)],
           openFormattingTag = Some (js ''i''), openTagVocalist = Some (js ''Test Singer'')\<rparr>"
    by (simp add: line_defs string_defs wc [unfolded js_def, simplified] split del: if_split)
  have "processLines initialState
     [js ''[Verse 1: <b>Test Singer</b>]'', js ''<i><b>x'', js ''y'', js ''z</b>''] =
   Inr \<lparr>result = [\<lparr>vocalist = js ''Test Singer'', line = js ''<i><b>x''\<rparr>,
                  \<lparr>vocalist = js ''Test Singer'', line = js ''y''\<rparr>,
                  \<lparr>vocalist = js ''Test Singer'', line = js ''z</b>''\<rparr>],
        vstats = [(js ''Test Singer'', \<lparr>lines = 3, words = 3\<rparr>)],
        currentVocalists = [(js ''Test Singer'', Bold)],
        openFormattingTag = Some (js ''i''), openTagVocalist = Some (js ''Test Singer'')\<rparr>"
    by (simp only: processLines.simps l0 l1 l2 l3 sum.case)
  with m show ?thesis
    by blast
qed

subsection \<open>Removal of the tagged spans\<close>








subsection \<open>Header lines\<close>

lemma takeWhile_upto: "x \<notin> set c \<Longrightarrow> takeWhile (\<lambda>y. y \<noteq> x) (c @ x # r) = c"
  by (induction c) auto

lemma dropWhile_upto: "x \<notin> set c \<Longrightarrow> dropWhile (\<lambda>y. y \<noteq> x) (c @ x # r) = x # r"
  by (induction c) auto

lemma sectionMatch_header:
  assumes "c \<noteq> []" "93 \<notin> set c"
  shows "sectionMatch (91 # c @ [93]) = Some c"
  using assms by (simp add: sectionMatch_def takeWhile_upto dropWhile_upto)

lemma sectionMatch_iff:
  "sectionMatch t = Some c \<longleftrightarrow> t = 91 # c @ [93] \<and> c \<noteq> [] \<and> 93 \<notin> set c"
proof
  assume m: "sectionMatch t = Some c"
  then obtain cs where t: "t = 91 # cs" and c: "c = takeWhile (\<lambda>x. x \<noteq> 93) cs"
    and ne: "c \<noteq> []" and d: "dropWhile (\<lambda>x. x \<noteq> 93) cs = [93]"
    by (auto simp: sectionMatch_def split: list.splits if_splits)
  have "cs = takeWhile (\<lambda>x. x \<noteq> 93) cs @ dropWhile (\<lambda>x. x \<noteq> 93) cs"
    by simp
  with c d have "cs = c @ [93]"
    by simp
  moreover have "93 \<notin> set c"
    unfolding c by (auto dest: set_takeWhileD)
  ultimately show "t = 91 # c @ [93] \<and> c \<noteq> [] \<and> 93 \<notin> set c"
    using t ne by simp
next
  assume "t = 91 # c @ [93] \<and> c \<noteq> [] \<and> 93 \<notin> set c"
  then show "sectionMatch t = Some c"
    by (simp add: sectionMatch_header)
qed

lemma indexOf_absent: "x \<notin> set c \<Longrightarrow> indexOf c x = None"
  by (induction c) auto

lemma indexOf_first: "x \<notin> set pre \<Longrightarrow> indexOf (pre @ x # post) x = Some (length pre)"
  by (induction pre) auto

text \<open>
  C3. A header line is a line whose trimmed text is \<^verbatim>\<open>[c]\<close> with \<open>c\<close> non-empty and free of
  \<^verbatim>\<open>]\<close>. Where \<open>c\<close> has no colon the line only sets \<^verbatim>\<open>openFormattingTag\<close> and
  \<^verbatim>\<open>openTagVocalist\<close> to null: the active map, the result and the statistics are those of
  before, so the following lyric lines are attributed with the previous map. Where \<open>c\<close> has
  a colon, the two variables are set to null as well and the active map becomes
  \<^verbatim>\<open>parseVocalists\<close> of the trimmed text after the first colon.
\<close>

theorem header_line:
  assumes "trim ln = 91 # c @ [93]" and "c \<noteq> []" and "93 \<notin> set c"
  shows "(58 \<notin> set c \<longrightarrow>
            processLine s ln = Inr (s\<lparr>openFormattingTag := None, openTagVocalist := None\<rparr>)) \<and>
         (\<forall>pre post. c = pre @ 58 # post \<and> 58 \<notin> set pre \<longrightarrow>
            processLine s ln =
              Inr (s\<lparr>openFormattingTag := None, openTagVocalist := None,
                     currentVocalists := parseVocalists (trim post)\<rparr>))"
proof -
  have hdr: "sectionMatch (trim ln) = Some c"
    using assms by (simp add: sectionMatch_header)
  have ne: "trim ln \<noteq> []"
    using assms(1) by simp
  show ?thesis
  proof (intro conjI allI impI)
    assume "58 \<notin> set c"
    then have "indexOf c 58 = None"
      by (rule indexOf_absent)
    then show "processLine s ln = Inr (s\<lparr>openFormattingTag := None, openTagVocalist := None\<rparr>)"
      using hdr ne by (simp add: processLine_def)
  next
    fix pre post
    assume "c = pre @ 58 # post \<and> 58 \<notin> set pre"
    then have "indexOf c 58 = Some (length pre)" and "drop (length pre + 1) c = post"
      by (simp_all add: indexOf_first)
    then show "processLine s ln =
        Inr (s\<lparr>openFormattingTag := None, openTagVocalist := None,
               currentVocalists := parseVocalists (trim post)\<rparr>)"
      using hdr ne by (simp add: processLine_def)
  qed
qed

theorem header_line_witness:
  "(trim (js ''[Chorus]'') = 91 # js ''Chorus'' @ [93] \<and> js ''Chorus'' \<noteq> [] \<and>
    93 \<notin> set (js ''Chorus'') \<and> 58 \<notin> set (js ''Chorus'') \<and>
    processLine
      \<lparr>result = [], vstats = [], currentVocalists = [(js ''Nick'', Plain)],
       openFormattingTag = Some (js ''b''), openTagVocalist = Some (js ''Nick'')\<rparr>
      (js ''[Chorus]'') =
    Inr \<lparr>result = [], vstats = [], currentVocalists = [(js ''Nick'', Plain)],
         openFormattingTag = None, openTagVocalist = None\<rparr>) \<and>
   (trim (js '' [Verse 2: <b>Brian</b>]'') = 91 # js ''Verse 2: <b>Brian</b>'' @ [93] \<and>
    js ''Verse 2: <b>Brian</b>'' \<noteq> [] \<and> 93 \<notin> set (js ''Verse 2: <b>Brian</b>'') \<and>
    js ''Verse 2: <b>Brian</b>'' = js ''Verse 2'' @ 58 # js '' <b>Brian</b>'' \<and>
    58 \<notin> set (js ''Verse 2'') \<and>
    processLine
      \<lparr>result = [], vstats = [], currentVocalists = [(js ''Nick'', Plain)],
       openFormattingTag = Some (js ''b''), openTagVocalist = Some (js ''Nick'')\<rparr>
      (js '' [Verse 2: <b>Brian</b>]'') =
    Inr \<lparr>result = [], vstats = [], currentVocalists = [(js ''Brian'', Bold)],
         openFormattingTag = None, openTagVocalist = None\<rparr>)"
proof -
  let ?s = "\<lparr>result = [], vstats = [], currentVocalists = [(js ''Nick'', Plain)],
       openFormattingTag = Some (js ''b''), openTagVocalist = Some (js ''Nick'')\<rparr>"
  have a: "trim (js ''[Chorus]'') = 91 # js ''Chorus'' @ [93]" "js ''Chorus'' \<noteq> []"
      "93 \<notin> set (js ''Chorus'')" "58 \<notin> set (js ''Chorus'')"
    by (simp_all add: string_defs)
  have b: "trim (js '' [Verse 2: <b>Brian</b>]'') = 91 # js ''Verse 2: <b>Brian</b>'' @ [93]"
      "js ''Verse 2: <b>Brian</b>'' \<noteq> []" "93 \<notin> set (js ''Verse 2: <b>Brian</b>'')"
      "js ''Verse 2: <b>Brian</b>'' = js ''Verse 2'' @ 58 # js '' <b>Brian</b>'' \<and>
       58 \<notin> set (js ''Verse 2'')"
    by (simp_all add: string_defs)
  have t: "trim (js '' <b>Brian</b>'') = js ''<b>Brian</b>''"
    by (simp add: string_defs)
  have m: "filteredMatches (js ''<b>Brian</b>'') =
     [\<lparr>fullMatch = js ''<b>Brian</b>'', content = js ''Brian'', format = Bold,
       start = 0, end_pos = 12\<rparr>]"
    by (simp add: tagged_defs string_defs)
  have w: "workingTextOf (js ''<b>Brian</b>'') = ([(js ''Brian'', Bold)], js ''|||REMOVED|||'')"
    unfolding workingTextOf_def m by (simp add: match_defs string_defs)
  have c: "cleanRemaining (js ''|||REMOVED|||'') = []"
    by (simp add: clean_defs string_defs)
  have e: "extractTaggedVocalists (js ''<b>Brian</b>'') = ([(js ''Brian'', Bold)], [])"
    unfolding extractTaggedVocalists_def w by (simp add: c)
  have pv: "parseVocalists (js ''<b>Brian</b>'') = [(js ''Brian'', Bold)]"
    unfolding parseVocalists_def e by (simp add: parseUntaggedText_def) (simp add: assign_def js_def)
  from header_line [OF a(1) a(2) a(3), of ?s, THEN conjunct1, rule_format, OF a(4)]
  have 1: "processLine ?s (js ''[Chorus]'') =
      Inr \<lparr>result = [], vstats = [], currentVocalists = [(js ''Nick'', Plain)],
         openFormattingTag = None, openTagVocalist = None\<rparr>"
    by simp
  from header_line [OF b(1) b(2) b(3), of ?s, THEN conjunct2, rule_format, OF b(4)]
  have 2: "processLine ?s (js '' [Verse 2: <b>Brian</b>]'') =
      Inr \<lparr>result = [], vstats = [], currentVocalists = [(js ''Brian'', Bold)],
         openFormattingTag = None, openTagVocalist = None\<rparr>"
    by (simp add: t pv)
  from a b 1 2 show ?thesis
    by blast
qed

subsection \<open>No failure\<close>

lemma processLine_total: "\<exists>s'. processLine s ln = Inr s'"
proof -
  obtain v tag tv where a: "attribute s (trim ln) = (v, tag, tv)"
    by (cases "attribute s (trim ln)") auto
  obtain vs' where "recordLine (vstats s) v (wordCount (trim ln)) = Inr vs'"
    using recordLine_total by blast
  with a show ?thesis
    by (simp add: processLine_def Let_def split: option.splits)
qed

lemma processLines_total: "\<exists>s'. processLines s lns = Inr s'"
proof (induction lns arbitrary: s)
  case Nil
  show ?case by simp
next
  case (Cons ln lns)
  obtain s1 where "processLine s ln = Inr s1"
    using processLine_total by blast
  with Cons.IH [of s1] show ?case by simp
qed

text \<open>
  C5. For every input string \<^verbatim>\<open>parseLyricsWithVocalists\<close> returns a result: the only
  operation of the loop that can raise, the read of a property of \<^verbatim>\<open>vocalistStats[vocalist]\<close>,
  never meets \<^verbatim>\<open>undefined\<close>, and every loop of the model is a total function (the
  recursions above come with their termination proofs).
\<close>

theorem parse_never_fails: "\<exists>r. parseLyricsWithVocalists lyricsText = Inr r"
proof -
  obtain s where "processLines initialState (split lyricsText (js [CHR 0x0A])) = Inr s"
    using processLines_total by blast
  then show ?thesis
    by (simp add: parseLyricsWithVocalists_def)
qed

subsection \<open>Vocalist lists: the two examples of the specification\<close>


lemma toLowerCase_append: "toLowerCase (a @ b) = toLowerCase a @ toLowerCase b"
  by (simp add: toLowerCase_def)

lemma length_toLowerCase: "length (toLowerCase a) = length a"
  by (simp add: toLowerCase_def)

lemma withStripped_prefix:
  assumes "toLowerCase w = js ''with ''"
  shows "withStripped (w @ r) = trim r"
proof -
  from assms have "length (toLowerCase w) = 5"
    by (simp add: js_def)
  then have len: "length w = 5"
    by (simp add: length_toLowerCase)
  have "startsWith (toLowerCase (w @ r)) (js ''with '')"
    using assms len by (simp add: toLowerCase_append startsWith_def js_def)
  then show ?thesis
    using len by (simp add: withStripped_def)
qed

text \<open>
  C7. \<^verbatim>\<open>parseVocalists("Nick <i>with Brian</i>")\<close> has exactly the two properties
  \<^verbatim>\<open>"Brian": italic\<close> and \<^verbatim>\<open>"Nick": plain\<close>; and for every kept match whose inner text
  begins with \<^verbatim>\<open>with\<close> and a space in any letter case, the loop body strips these five
  characters and uses the trimmed remainder as the name.
\<close>

theorem with_prefix_stripped:
  "parseVocalists (js ''Nick <i>with Brian</i>'') = [(js ''Brian'', Italic), (js ''Nick'', Plain)] \<and>
   (\<forall>w r. toLowerCase w = js ''with '' \<and> trim r \<noteq> [] \<longrightarrow>
      processMatch (vs, t) (m\<lparr>content := w @ r\<rparr>) =
        (vs @ [(processVocalistName (trim r), format m)],
         replaceFirst (fullMatch m) placeholder t))"
proof
  have m: "filteredMatches (js ''Nick <i>with Brian</i>'') =
     [\<lparr>fullMatch = js ''<i>with Brian</i>'', content = js ''with Brian'', format = Italic,
       start = 5, end_pos = 22\<rparr>]"
    by (simp add: tagged_defs string_defs)
  have w: "workingTextOf (js ''Nick <i>with Brian</i>'') =
     ([(js ''Brian'', Italic)], js ''Nick |||REMOVED|||'')"
    unfolding workingTextOf_def m by (simp add: match_defs string_defs)
  have c: "cleanRemaining (js ''Nick |||REMOVED|||'') = js ''Nick''"
    by (simp add: clean_defs string_defs)
  have e: "extractTaggedVocalists (js ''Nick <i>with Brian</i>'') =
     ([(js ''Brian'', Italic)], js ''Nick'')"
    unfolding extractTaggedVocalists_def w by (simp add: c)
  have u: "parseUntaggedText (js ''Nick'') = [(js ''Nick'', Plain)]"
    by (simp add: untagged_defs string_defs)
  show "parseVocalists (js ''Nick <i>with Brian</i>'') = [(js ''Brian'', Italic), (js ''Nick'', Plain)]"
    unfolding parseVocalists_def e by (simp add: u) (simp add: assign_def js_def)
next
  show "\<forall>w r. toLowerCase w = js ''with '' \<and> trim r \<noteq> [] \<longrightarrow>
      processMatch (vs, t) (m\<lparr>content := w @ r\<rparr>) =
        (vs @ [(processVocalistName (trim r), format m)],
         replaceFirst (fullMatch m) placeholder t)"
    by (simp add: processMatch_def withStripped_prefix)
qed

theorem with_prefix_stripped_witness:
  "toLowerCase (js ''WITH '') = js ''with '' \<and> trim (js ''Kevin'') \<noteq> [] \<and>
   processMatch ([], js ''Brian <i>WITH Kevin</i>'')
     \<lparr>fullMatch = js ''<i>WITH Kevin</i>'', content = js ''WITH Kevin'', format = Italic,
      start = 6, end_pos = 23\<rparr> =
   ([(js ''Kevin'', Italic)], js ''Brian |||REMOVED|||'')"
proof -
  have h: "toLowerCase (js ''WITH '') = js ''with '' \<and> trim (js ''Kevin'') \<noteq> []"
    by (simp add: toLowerCase_def string_defs)
  have eq: "\<lparr>fullMatch = js ''<i>WITH Kevin</i>'', content = js ''WITH Kevin'', format = Italic,
      start = 6, end_pos = 23\<rparr> = \<lparr>fullMatch = js ''<i>WITH Kevin</i>'', content = js ''Brian'', format = Italic,
      start = 6, end_pos = 23\<rparr>\<lparr>content := js ''WITH '' @ js ''Kevin''\<rparr>"
    by (simp add: js_def)
  from with_prefix_stripped [where vs = "[]" and t = "js ''Brian <i>WITH Kevin</i>''"
      and m = "\<lparr>fullMatch = js ''<i>WITH Kevin</i>'', content = js ''Brian'', format = Italic,
      start = 6, end_pos = 23\<rparr>", THEN conjunct2, rule_format, OF h]
  show ?thesis
    using h unfolding eq
    by (simp add: match_defs string_defs)
qed

subsection \<open>Word counts and wrapping tags\<close>

lemma last_gt_closes:
  assumes "60 \<notin> set (takeWhile (\<lambda>c. c \<noteq> 62) (rev t))" and "t = ys @ 60 # zs"
  shows "(62::nat) \<in> set zs"
proof (rule ccontr)
  assume "62 \<notin> set zs"
  then have "takeWhile (\<lambda>c. c \<noteq> 62) (rev zs @ 60 # rev ys) =
      rev zs @ takeWhile (\<lambda>c. c \<noteq> 62) (60 # rev ys)"
    by (intro takeWhile_append2) auto
  with assms show False
    by simp
qed

lemma stripTags_append_closed:
  "(\<forall>ys zs. a = ys @ 60 # zs \<longrightarrow> 62 \<in> set zs) \<Longrightarrow> stripTags (a @ b) = stripTags a @ stripTags b"
proof (induction a rule: stripTags.induct)
  case 1
  show ?case by simp
next
  case (2 c cs)
  show ?case
  proof (cases "c = 60")
    case True
    with "2.prems" have gt: "62 \<in> set cs"
      by (metis append_Nil)
    let ?P = "\<lambda>x. x \<noteq> (62::nat)"
    from gt have ne: "dropWhile ?P cs \<noteq> []"
      by (simp add: dropWhile_eq_Nil_conv)
    have split: "cs = takeWhile ?P cs @ hd (dropWhile ?P cs) # tl (dropWhile ?P cs)"
      using ne by simp
    have "\<forall>ys zs. tl (dropWhile ?P cs) = ys @ 60 # zs \<longrightarrow> 62 \<in> set zs"
    proof (intro allI impI)
      fix ys zs
      assume "tl (dropWhile ?P cs) = ys @ 60 # zs"
      with split have "c # cs = (c # takeWhile ?P cs @ hd (dropWhile ?P cs) # ys) @ 60 # zs"
        by simp
      with "2.prems" show "62 \<in> set zs"
        by blast
    qed
    with True gt have ih: "stripTags (tl (dropWhile ?P cs) @ b) =
        stripTags (tl (dropWhile ?P cs)) @ stripTags b"
      by (intro "2.IH"(1)) simp_all
    from gt have "dropWhile ?P (cs @ b) = dropWhile ?P cs @ b"
      by (auto simp: dropWhile_append)
    with ne have "tl (dropWhile ?P (cs @ b)) = tl (dropWhile ?P cs) @ b"
      by simp
    with True gt ih show ?thesis
      by simp
  next
    case False
    have "\<forall>ys zs. cs = ys @ 60 # zs \<longrightarrow> 62 \<in> set zs"
    proof (intro allI impI)
      fix ys zs
      assume "cs = ys @ 60 # zs"
      then have "c # cs = (c # ys) @ 60 # zs"
        by simp
      with "2.prems" show "62 \<in> set zs"
        by blast
    qed
    with False have "stripTags (cs @ b) = stripTags cs @ stripTags b"
      by (intro "2.IH"(2)) simp_all
    with False show ?thesis
      by simp
  qed
qed

lemma stripTags_append:
  "60 \<notin> set (takeWhile (\<lambda>c. c \<noteq> 62) (rev a)) \<Longrightarrow> stripTags (a @ b) = stripTags a @ stripTags b"
  by (rule stripTags_append_closed) (blast dest: last_gt_closes)

lemma stripTags_no_lt: "60 \<notin> set w \<Longrightarrow> stripTags w = w"
  by (induction w) auto

lemma trim_spaces_left: "\<forall>c \<in> set w. isWhiteSpace c \<Longrightarrow> trim (w @ x) = trim x"
  by (simp add: trim_def dropWhile_append)

lemma trim_spaces_right:
  assumes "\<forall>c \<in> set w. isWhiteSpace c"
  shows "trim (x @ w) = trim x"
proof (cases "\<forall>c \<in> set x. isWhiteSpace c")
  case True
  then have a: "dropWhile isWhiteSpace x = []"
    by simp
  from True assms have b: "dropWhile isWhiteSpace (x @ w) = []"
    by simp
  show ?thesis
    unfolding trim_def a b by simp
next
  case False
  then have "dropWhile isWhiteSpace (x @ w) = dropWhile isWhiteSpace x @ w"
    by (auto simp: dropWhile_append)
  with assms show ?thesis
    by (simp add: trim_def dropWhile_append)
qed

lemma trim_parts:
  "\<exists>w1 w2. t = w1 @ trim t @ w2 \<and> (\<forall>c \<in> set w1. isWhiteSpace c) \<and> (\<forall>c \<in> set w2. isWhiteSpace c)"
proof (intro exI conjI)
  let ?d = "dropWhile isWhiteSpace t"
  have "rev ?d = takeWhile isWhiteSpace (rev ?d) @ dropWhile isWhiteSpace (rev ?d)"
    by simp
  then have "?d = rev (dropWhile isWhiteSpace (rev ?d)) @ rev (takeWhile isWhiteSpace (rev ?d))"
    by (metis rev_append rev_rev_ident)
  then show "t = takeWhile isWhiteSpace t @ trim t @ rev (takeWhile isWhiteSpace (rev ?d))"
    by (metis takeWhile_dropWhile_id trim_def)
  show "\<forall>c \<in> set (takeWhile isWhiteSpace t). isWhiteSpace c"
    by (auto dest: set_takeWhileD)
  show "\<forall>c \<in> set (rev (takeWhile isWhiteSpace (rev ?d))). isWhiteSpace c"
    by (auto dest: set_takeWhileD)
qed

lemma not_space_markers: "\<not> isWhiteSpace 60" "\<not> isWhiteSpace 62"
  by (simp_all add: isWhiteSpace_def)

lemma clean_text_trim:
  assumes "60 \<notin> set (takeWhile (\<lambda>c. c \<noteq> 62) (rev t))"
  shows "trim (stripTags (trim t)) = trim (stripTags t)"
proof -
  obtain w1 w2 where t: "t = w1 @ trim t @ w2"
    and w1: "\<forall>c \<in> set w1. isWhiteSpace c" and w2: "\<forall>c \<in> set w2. isWhiteSpace c"
    using trim_parts by blast
  from w1 w2 have no: "60 \<notin> set w1" "60 \<notin> set w2" "62 \<notin> set w2"
    using not_space_markers by auto
  have core: "\<forall>ys zs. trim t = ys @ 60 # zs \<longrightarrow> 62 \<in> set zs"
  proof (intro allI impI)
    fix ys zs
    assume "trim t = ys @ 60 # zs"
    with t have "t = (w1 @ ys) @ 60 # (zs @ w2)"
      by simp
    with assms have "62 \<in> set (zs @ w2)"
      by (rule last_gt_closes)
    with no show "62 \<in> set zs"
      by simp
  qed
  have "\<forall>ys zs. w1 = ys @ 60 # zs \<longrightarrow> 62 \<in> set zs"
    using no by auto
  then have "stripTags (w1 @ trim t @ w2) = stripTags w1 @ stripTags (trim t @ w2)"
    by (rule stripTags_append_closed)
  also have "stripTags (trim t @ w2) = stripTags (trim t) @ stripTags w2"
    using core by (rule stripTags_append_closed)
  finally have "stripTags t = w1 @ stripTags (trim t) @ w2"
    using t no by (simp add: stripTags_no_lt)
  then show ?thesis
    using w1 w2 by (simp add: trim_spaces_left trim_spaces_right)
qed

lemma wrapped_clean_text:
  assumes "60 \<notin> set (takeWhile (\<lambda>c. c \<noteq> 62) (rev t))"
    and "opn = [60, x, 62]" and "cls = [60, 47, x, 62]" and "x \<noteq> 62"
  shows "wordCount (trim (opn @ t @ cls)) = wordCount (trim t)"
proof -
  have tr: "trim (opn @ t @ cls) = opn @ t @ cls"
    using assms(2,3) not_space_markers by (simp add: trim_def)
  have "stripTags (opn @ t @ cls) = stripTags opn @ stripTags (t @ cls)"
    using assms(2,4) by (intro stripTags_append) simp
  also have "stripTags (t @ cls) = stripTags t @ stripTags cls"
    using assms(1) by (rule stripTags_append)
  finally have "stripTags (opn @ t @ cls) = stripTags t"
    using assms(2,3,4) by simp
  then show ?thesis
    using clean_text_trim [OF assms(1)] by (simp add: wordCount_def tr)
qed

text \<open>
  C8 (as amended). For every line text \<open>t\<close> in which no \<^verbatim>\<open><\<close> stands after the last
  \<^verbatim>\<open>>\<close> (every \<^verbatim>\<open><\<close> of \<open>t\<close> is followed by a \<^verbatim>\<open>>\<close> somewhere in \<open>t\<close>), the word count
  that the loop computes for the trimmed line is the same for \<open>t\<close> and for \<open>t\<close> wrapped in
  \<^verbatim>\<open><b>...</b>\<close> or in \<^verbatim>\<open><i>...</i>\<close>; \<^verbatim>\<open><b>This is five words</b>\<close> and
  \<^verbatim>\<open>This is five words\<close> both count 4 words.
\<close>

theorem word_count_wrapping:
  assumes "60 \<notin> set (takeWhile (\<lambda>c. c \<noteq> 62) (rev t))"
  shows "wordCount (trim (js ''<b>'' @ t @ js ''</b>'')) = wordCount (trim t) \<and>
         wordCount (trim (js ''<i>'' @ t @ js ''</i>'')) = wordCount (trim t) \<and>
         wordCount (js ''<b>This is five words</b>'') = 4 \<and>
         wordCount (js ''This is five words'') = 4"
proof (intro conjI)
  show "wordCount (trim (js ''<b>'' @ t @ js ''</b>'')) = wordCount (trim t)"
    using assms by (rule wrapped_clean_text [where x = 98]) (simp_all add: js_def)
  show "wordCount (trim (js ''<i>'' @ t @ js ''</i>'')) = wordCount (trim t)"
    using assms by (rule wrapped_clean_text [where x = 105]) (simp_all add: js_def)
  show "wordCount (js ''<b>This is five words</b>'') = 4"
    by (simp add: count_defs string_defs split del: if_split)
  show "wordCount (js ''This is five words'') = 4"
    by (simp add: count_defs string_defs split del: if_split)
qed

theorem word_count_wrapping_witness:
  "60 \<notin> set (takeWhile (\<lambda>c. c \<noteq> 62) (rev (js ''This is <i>five</i> words''))) \<and>
   wordCount (trim (js ''<b>'' @ js ''This is <i>five</i> words'' @ js ''</b>'')) =
   wordCount (trim (js ''This is <i>five</i> words''))"
proof -
  have h: "60 \<notin> set (takeWhile (\<lambda>c. c \<noteq> 62) (rev (js ''This is <i>five</i> words'')))"
    by (simp add: js_def)
  from word_count_wrapping [OF h] h show ?thesis
    by blast
qed

text \<open>
  Without the condition the counts differ: in \<^verbatim>\<open><b>a < b</b>\<close> the pattern
  \<^verbatim>\<open>/<[^>]*>/g\<close> takes \<^verbatim>\<open>< b</b>\<close> for a tag, so one word is left, while the bare text
  \<^verbatim>\<open>a < b\<close> has three.
\<close>

theorem word_count_wrapping_counterexample:
  "wordCount (trim (js ''<b>'' @ js ''a < b'' @ js ''</b>'')) = 1 \<and>
   wordCount (trim (js ''a < b'')) = 3"
  by (simp add: count_defs string_defs split del: if_split)

subsection \<open>Consistency of the two outputs\<close>

text \<open>
  C9. The keys of \<^verbatim>\<open>vocalistStats\<close> are meant to be the vocalists of \<^verbatim>\<open>parsedLyrics\<close>. For
  the header \<^verbatim>\<open>[Verse 1: constructor]\<close> followed by the line \<^verbatim>\<open>hello\<close> the line is attributed
  to \<^verbatim>\<open>constructor\<close>, but \<^verbatim>\<open>vocalistStats["constructor"]\<close> reads the inherited member of
  \<^verbatim>\<open>Object.prototype\<close>, so no entry is created and the returned statistics are empty.
\<close>

theorem inherited_name_not_counted:
  "parseLyricsWithVocalists (js ''[Verse 1: constructor]'' @ 10 # js ''hello'') =
     Inr \<lparr>parsedLyrics = [\<lparr>vocalist = js ''constructor'', line = js ''hello''\<rparr>],
          vocalistStats = []\<rparr>"
proof -
  have sp: "split (js ''[Verse 1: constructor]'' @ 10 # js ''hello'') (js [CHR 0x0A]) =
      [js ''[Verse 1: constructor]'', js ''hello'']"
    by (simp add: split_def splitStr.simps string_defs)
  have e: "extractTaggedVocalists (js ''constructor'') = ([], js ''constructor'')"
    by (simp add: extractTaggedVocalists_def workingTextOf_def tagged_defs clean_defs string_defs
        split del: if_split)
  have u: "parseUntaggedText (js ''constructor'') = [(js ''constructor'', Plain)]"
    by (simp add: untagged_defs string_defs)
  have pv: "parseVocalists (js ''constructor'') = [(js ''constructor'', Plain)]"
    unfolding parseVocalists_def e by (simp add: u) (simp add: assign_def js_def)
  have t: "trim (drop 8 (js ''Verse 1: constructor'')) = js ''constructor''"
    by (simp add: string_defs)
  have l1: "processLine initialState (js ''[Verse 1: constructor]'') =
      Inr \<lparr>result = [], vstats = [], currentVocalists = [(js ''constructor'', Plain)],
           openFormattingTag = None, openTagVocalist = None\<rparr>"
    by (simp add: processLine_def sectionMatch_def initialState_def string_defs)
       (simp add: pv [unfolded js_def, simplified] js_def)
  have wc: "wordCount (js ''hello'') = 1"
    by (simp add: count_defs string_defs split del: if_split)
  have l2: "processLine \<lparr>result = [], vstats = [], currentVocalists = [(js ''constructor'', Plain)],
           openFormattingTag = None, openTagVocalist = None\<rparr> (js ''hello'') =
      Inr \<lparr>result = [\<lparr>vocalist = js ''constructor'', line = js ''hello''\<rparr>], vstats = [],
           currentVocalists = [(js ''constructor'', Plain)],
           openFormattingTag = None, openTagVocalist = None\<rparr>"
    by (simp add: line_defs string_defs wc split del: if_split)
  show ?thesis
    unfolding parseLyricsWithVocalists_def sp by (simp add: l1 l2)
qed

lemma countedStats_snoc:
  "countedStats (ls @ [\<lparr>vocalist = v, line = t\<rparr>]) v' =
     (if v' = v then
        Some (case countedStats ls v of
                None \<Rightarrow> \<lparr>lines = 1, words = wordCount t\<rparr>
              | Some st \<Rightarrow> st\<lparr>lines := lines st + 1, words := words st + wordCount t\<rparr>)
      else countedStats ls v')"
  by (simp add: countedStats_def)

lemma processLine_cases:
  assumes "processLine s ln = Inr s'"
  shows "(result s' = result s \<and> vstats s' = vstats s) \<or>
     (\<exists>v. result s' = result s @ [\<lparr>vocalist = v, line = trim ln\<rparr>] \<and>
          recordLine (vstats s) v (wordCount (trim ln)) = Inr (vstats s'))"
  using assms
  by (auto simp: processLine_def Let_def split: if_splits option.splits prod.splits sum.splits)

lemma processLine_stats:
  assumes step: "processLine s ln = Inr s'"
    and inv: "\<forall>v. map_of (vstats s) v =
       (if v \<in> set objectPrototypeKeys then None else countedStats (result s) v)"
  shows "\<forall>v. map_of (vstats s') v =
       (if v \<in> set objectPrototypeKeys then None else countedStats (result s') v)"
proof -
  from processLine_cases [OF step] show ?thesis
  proof
    assume "result s' = result s \<and> vstats s' = vstats s"
    with inv show ?thesis by simp
  next
    assume "\<exists>v. result s' = result s @ [\<lparr>vocalist = v, line = trim ln\<rparr>] \<and>
          recordLine (vstats s) v (wordCount (trim ln)) = Inr (vstats s')"
    then obtain v where res: "result s' = result s @ [\<lparr>vocalist = v, line = trim ln\<rparr>]"
      and rec: "recordLine (vstats s) v (wordCount (trim ln)) = Inr (vstats s')"
      by blast
    show ?thesis
    proof (cases "v \<in> set objectPrototypeKeys")
      case True
      with inv have "map_of (vstats s) v = None"
        by simp
      with rec True have "vstats s' = vstats s"
        by (rule recordLine_inherited)
      with inv True show ?thesis
        by (auto simp: res countedStats_snoc)
    next
      case False
      from recordLine_counts [OF False, of "vstats s" "wordCount (trim ln)"] rec
      have own: "map_of (vstats s') v =
          Some (case map_of (vstats s) v of
                  None \<Rightarrow> \<lparr>lines = 1, words = wordCount (trim ln)\<rparr>
                | Some st \<Rightarrow> st\<lparr>lines := lines st + 1, words := words st + wordCount (trim ln)\<rparr>)"
        by auto
      show ?thesis
      proof (intro allI)
        fix v'
        show "map_of (vstats s') v' =
            (if v' \<in> set objectPrototypeKeys then None else countedStats (result s') v')"
        proof (cases "v' = v")
          case True
          with own inv False show ?thesis
            by (simp add: res countedStats_snoc)
        next
          case neq: False
          with rec have "map_of (vstats s') v' = map_of (vstats s) v'"
            by (rule recordLine_others)
          with inv neq show ?thesis
            by (simp add: res countedStats_snoc)
        qed
      qed
    qed
  qed
qed

lemma processLines_stats:
  assumes "processLines s lns = Inr s'"
    and "\<forall>v. map_of (vstats s) v =
       (if v \<in> set objectPrototypeKeys then None else countedStats (result s) v)"
  shows "\<forall>v. map_of (vstats s') v =
       (if v \<in> set objectPrototypeKeys then None else countedStats (result s') v)"
  using assms
proof (induction lns arbitrary: s)
  case Nil
  then show ?case by simp
next
  case (Cons ln lns)
  from Cons.prems(1) obtain s1 where 1: "processLine s ln = Inr s1"
    and 2: "processLines s1 lns = Inr s'"
    by (auto split: sum.splits)
  from 1 Cons.prems(2) have "\<forall>v. map_of (vstats s1) v =
       (if v \<in> set objectPrototypeKeys then None else countedStats (result s1) v)"
    by (rule processLine_stats)
  with 2 show ?case
    by (rule Cons.IH)
qed

text \<open>
  Apart from the names inherited from \<^verbatim>\<open>Object.prototype\<close>, the two outputs are consistent:
  \<^verbatim>\<open>vocalistStats\<close> holds, for each vocalist of \<^verbatim>\<open>parsedLyrics\<close>, the number of its lines
  and the sum of their word counts, and nothing else. An inherited name never gets an entry.
\<close>

lemma stats_consistent_except_inherited:
  assumes "parseLyricsWithVocalists lyricsText = Inr r"
  shows "map_of (vocalistStats r) v =
     (if v \<in> set objectPrototypeKeys then None else countedStats (parsedLyrics r) v)"
proof -
  from assms obtain s where run: "processLines initialState (split lyricsText (js [CHR 0x0A])) = Inr s"
    and r: "r = \<lparr>parsedLyrics = result s, vocalistStats = vstats s\<rparr>"
    by (auto simp: parseLyricsWithVocalists_def split: sum.splits)
  have "\<forall>v. map_of (vstats initialState) v =
       (if v \<in> set objectPrototypeKeys then None else countedStats (result initialState) v)"
    by (simp add: initialState_def countedStats_def)
  with run have "\<forall>v. map_of (vstats s) v =
       (if v \<in> set objectPrototypeKeys then None else countedStats (result s) v)"
    by (rule processLines_stats)
  with r show ?thesis
    by simp
qed

subsection \<open>The summary\<close>

lemma summary_fields:
  "totalLines (generateStatsSummary toFixed1 vs) =
     foldl (\<lambda>sum st. sum + lines st) 0 (values_of vs)"
  "totalWords (generateStatsSummary toFixed1 vs) =
     foldl (\<lambda>sum st. sum + words st) 0 (values_of vs)"
  "vocalistCount (generateStatsSummary toFixed1 vs) = length (keys vs)"
  "vocalistPercentages (generateStatsSummary toFixed1 vs) =
     foldl (\<lambda>obj e. assign obj (fst e)
        \<lparr>linesPercentage =
           (if totalLines (generateStatsSummary toFixed1 vs) > 0
            then String (toFixed1 (lines (snd e)) (totalLines (generateStatsSummary toFixed1 vs)))
            else Number 0),
         wordsPercentage =
           (if totalWords (generateStatsSummary toFixed1 vs) > 0
            then String (toFixed1 (words (snd e)) (totalWords (generateStatsSummary toFixed1 vs)))
            else Number 0),
         lines_of = lines (snd e), words_of = words (snd e)\<rparr>) [] (entries vs)"
  by (simp_all add: generateStatsSummary_def Let_def case_prod_unfold cong: if_cong)

text \<open>
  C10. In the result of \<^verbatim>\<open>generateStatsSummary\<close> every per-vocalist \<^verbatim>\<open>linesPercentage\<close> is
  the string returned by \<^verbatim>\<open>toFixed(1)\<close> when \<^verbatim>\<open>totalLines\<close> is positive and the number
  \<^verbatim>\<open>0\<close> when it is zero, and likewise \<^verbatim>\<open>wordsPercentage\<close> with \<^verbatim>\<open>totalWords\<close>: the two
  branches have different types, and a caller gets strings whenever the totals are not zero.
\<close>

theorem percentage_types:
  "\<forall>(v, p) \<in> set (vocalistPercentages (generateStatsSummary toFixed1 vs)).
     (totalLines (generateStatsSummary toFixed1 vs) > 0 \<longrightarrow>
        linesPercentage p =
          String (toFixed1 (lines_of p) (totalLines (generateStatsSummary toFixed1 vs)))) \<and>
     (totalLines (generateStatsSummary toFixed1 vs) = 0 \<longrightarrow> linesPercentage p = Number 0) \<and>
     (totalWords (generateStatsSummary toFixed1 vs) > 0 \<longrightarrow>
        wordsPercentage p =
          String (toFixed1 (words_of p) (totalWords (generateStatsSummary toFixed1 vs)))) \<and>
     (totalWords (generateStatsSummary toFixed1 vs) = 0 \<longrightarrow> wordsPercentage p = Number 0)"
proof -
  let ?S = "generateStatsSummary toFixed1 vs"
  let ?Q = "\<lambda>p. (totalLines ?S > 0 \<longrightarrow>
        linesPercentage p = String (toFixed1 (lines_of p) (totalLines ?S))) \<and>
     (totalLines ?S = 0 \<longrightarrow> linesPercentage p = Number 0) \<and>
     (totalWords ?S > 0 \<longrightarrow>
        wordsPercentage p = String (toFixed1 (words_of p) (totalWords ?S))) \<and>
     (totalWords ?S = 0 \<longrightarrow> wordsPercentage p = Number 0)"
  have "\<forall>p \<in> snd ` set (vocalistPercentages ?S). ?Q p"
    unfolding summary_fields(4) by (rule foldl_assign_values) simp_all
  then show ?thesis
    by force
qed

theorem percentage_types_witness:
  "((js ''Nick'', \<lparr>linesPercentage = String (js ''33.3''), wordsPercentage = String (js ''66.7''),
        lines_of = 1, words_of = 4\<rparr>)
      \<in> set (vocalistPercentages (generateStatsSummary
            (\<lambda>count total. if 3 * count < 2 * total then js ''33.3'' else js ''66.7'')
            [(js ''Nick'', \<lparr>lines = 1, words = 4\<rparr>), (js ''Brian'', \<lparr>lines = 2, words = 2\<rparr>)])) \<and>
    totalLines (generateStatsSummary
            (\<lambda>count total. if 3 * count < 2 * total then js ''33.3'' else js ''66.7'')
            [(js ''Nick'', \<lparr>lines = 1, words = 4\<rparr>), (js ''Brian'', \<lparr>lines = 2, words = 2\<rparr>)]) = 3 \<and>
    linesPercentage \<lparr>linesPercentage = String (js ''33.3''), wordsPercentage = String (js ''66.7''),
        lines_of = 1, words_of = 4\<rparr> = String (js ''33.3'')) \<and>
   ((js ''Nick'', \<lparr>linesPercentage = Number 0, wordsPercentage = Number 0,
        lines_of = 0, words_of = 0\<rparr>)
      \<in> set (vocalistPercentages (generateStatsSummary (\<lambda>count total. js ''NaN'')
            [(js ''Nick'', \<lparr>lines = 0, words = 0\<rparr>)])) \<and>
    totalLines (generateStatsSummary (\<lambda>count total. js ''NaN'')
            [(js ''Nick'', \<lparr>lines = 0, words = 0\<rparr>)]) = 0 \<and>
    linesPercentage \<lparr>linesPercentage = Number 0, wordsPercentage = Number 0,
        lines_of = 0, words_of = 0\<rparr> = Number 0)"
proof -
  let ?f = "\<lambda>count total::nat. if 3 * count < 2 * total then js ''33.3'' else js ''66.7''"
  let ?vs = "[(js ''Nick'', \<lparr>lines = 1, words = 4\<rparr>), (js ''Brian'', \<lparr>lines = 2, words = 2\<rparr>)]"
  let ?p = "\<lparr>linesPercentage = String (js ''33.3''), wordsPercentage = String (js ''66.7''),
        lines_of = 1, words_of = 4\<rparr>"
  let ?g = "\<lambda>count total::nat. js ''NaN''"
  let ?ws = "[(js ''Nick'', \<lparr>lines = 0, words = 0\<rparr>)]"
  let ?q = "\<lparr>linesPercentage = Number 0, wordsPercentage = Number 0, lines_of = 0, words_of = 0\<rparr>"
  have m1: "(js ''Nick'', ?p) \<in> set (vocalistPercentages (generateStatsSummary ?f ?vs))"
    by (simp add: summary_defs)
  have t1: "totalLines (generateStatsSummary ?f ?vs) = 3"
    by (simp add: summary_defs)
  have m2: "(js ''Nick'', ?q) \<in> set (vocalistPercentages (generateStatsSummary ?g ?ws))"
    by (simp add: summary_defs)
  have t2: "totalLines (generateStatsSummary ?g ?ws) = 0"
    by (simp add: summary_defs)
  from percentage_types [of ?f ?vs, rule_format, OF m1] t1
  have 1: "linesPercentage ?p = String (js ''33.3'')"
    by simp
  from percentage_types [of ?g ?ws, rule_format, OF m2] t2
  have 2: "linesPercentage ?q = Number 0"
    by simp
  from m1 t1 1 m2 t2 2 show ?thesis
    by blast
qed

lemma sum_insort_key: "sum_list (map f (insort_key k y ys)) = (f y + sum_list (map f ys) :: nat)"
  by (induction ys) auto

lemma sum_sort_key: "sum_list (map f (sort_key k ys)) = (sum_list (map f ys) :: nat)"
  by (induction ys) (auto simp: sum_insort_key)

lemma sum_filter_split:
  "sum_list (map f (filter P xs)) + sum_list (map f (filter (\<lambda>x. \<not> P x) xs)) =
     (sum_list (map f xs) :: nat)"
  by (induction xs) auto

lemma sum_entries: "sum_list (map f (entries obj)) = (sum_list (map f obj) :: nat)"
  by (simp add: entries_def sum_sort_key sum_filter_split)

lemma foldl_sum: "foldl (\<lambda>sum st. sum + f st) a xs = (a :: nat) + sum_list (map f xs)"
  by (induction xs arbitrary: a) auto

text \<open>
  The parts of the summary that are whole numbers: the totals are the sums of the counts,
  \<^verbatim>\<open>vocalistCount\<close> is the number of names, and the empty mapping gives zero totals and
  no percentages.
\<close>

lemma summary_totals:
  "totalLines (generateStatsSummary toFixed1 vs) = sum_list (map (\<lambda>e. lines (snd e)) vs)"
  "totalWords (generateStatsSummary toFixed1 vs) = sum_list (map (\<lambda>e. words (snd e)) vs)"
  "vocalistCount (generateStatsSummary toFixed1 vs) = length vs"
  "generateStatsSummary toFixed1 [] =
     \<lparr>totalLines = 0, totalWords = 0, vocalistCount = 0, vocalistPercentages = []\<rparr>"
proof -
  show "totalLines (generateStatsSummary toFixed1 vs) = sum_list (map (\<lambda>e. lines (snd e)) vs)"
    using sum_entries [of "\<lambda>e. lines (snd e)" vs]
    by (simp add: summary_fields(1) values_of_def foldl_sum comp_def)
  show "totalWords (generateStatsSummary toFixed1 vs) = sum_list (map (\<lambda>e. words (snd e)) vs)"
    using sum_entries [of "\<lambda>e. words (snd e)" vs]
    by (simp add: summary_fields(2) values_of_def foldl_sum comp_def)
  show "vocalistCount (generateStatsSummary toFixed1 vs) = length vs"
    by (simp add: summary_fields(3) keys_def length_entries)
  show "generateStatsSummary toFixed1 [] =
     \<lparr>totalLines = 0, totalWords = 0, vocalistCount = 0, vocalistPercentages = []\<rparr>"
    by (simp add: generateStatsSummary_def values_of_def keys_def entries_def)
qed

subsection \<open>The summary: totals and percentages computed in binary64\<close>

lemma floor_divide_numeral [simp]:
  "\<lfloor>numeral a / numeral b :: rat\<rfloor> = numeral a div numeral b"
  using floor_divide_of_int_eq [of "numeral a" "numeral b", where ?'a = rat] by simp

text \<open>
  Each rounding of binary64 has a relative error of at most \<open>2^-53\<close>; the division and the
  multiplication of a percentage together move the exact value by at most \<open>201 / 2^53\<close>.
\<close>

lemma roundEven_error: "\<bar>of_int (roundEven r) - r\<bar> \<le> 1 / 2"
proof -
  have "of_int \<lfloor>r\<rfloor> \<le> r" "r < of_int \<lfloor>r\<rfloor> + 1"
    by linarith+
  then show ?thesis
    unfolding roundEven_def Let_def by (auto simp: abs_le_iff)
qed

lemma scaleUp_spec:
  "0 < q \<Longrightarrow> 0 < p \<Longrightarrow> 2 ^ 52 \<le> q * of_nat (scaleUp q p) \<and> 0 < scaleUp q p"
proof (induction q p rule: scaleUp.induct)
  case (1 q p)
  show ?case
  proof (cases "2 ^ 52 \<le> q * of_nat p")
    case True
    with 1(2,3) show ?thesis
      by (subst scaleUp.simps, subst (2) scaleUp.simps) simp
  next
    case False
    with 1 have "2 ^ 52 \<le> q * of_nat (scaleUp q (2 * p)) \<and> 0 < scaleUp q (2 * p)"
      by simp
    with False 1(2,3) show ?thesis
      by (subst scaleUp.simps, subst (2) scaleUp.simps) simp
  qed
qed

lemma toDouble_error:
  assumes "0 < q" and "q < 2 ^ 53"
  shows "\<bar>toDouble q - q\<bar> \<le> q / 2 ^ 53"
proof -
  define p where "p = scaleUp q 1"
  from scaleUp_spec [of q 1] assms(1) have p: "2 ^ 52 \<le> q * of_nat p" "0 < p"
    by (simp_all add: p_def)
  define P :: rat where "P = of_nat p"
  from p have P: "0 < P" "2 ^ 52 \<le> q * P"
    by (simp_all add: P_def)
  define r where "r = of_int (roundEven (q * P)) - q * P"
  have r: "\<bar>r\<bar> \<le> 1 / 2"
    unfolding r_def by (rule roundEven_error)
  have d: "toDouble q = of_int (roundEven (q * P)) / P"
    using assms by (simp add: toDouble_def p_def P_def Let_def)
  have "toDouble q - q = r / P"
    using P(1) by (simp add: d r_def field_simps)
  then have "\<bar>toDouble q - q\<bar> = \<bar>r\<bar> / P"
    using P(1) by simp
  also have "\<dots> \<le> (1 / 2) / P"
    using r P(1) by (rule divide_right_mono [OF _ less_imp_le])
  also have "\<dots> \<le> q / 2 ^ 53"
  proof -
    from P have "2 ^ 52 / P \<le> q"
      by (simp add: pos_divide_le_eq)
    then have "2 ^ 52 / P / 2 ^ 53 \<le> q / 2 ^ 53"
      by (rule divide_right_mono) simp
    then show ?thesis
      by simp
  qed
  finally show ?thesis .
qed

lemma percent_error:
  assumes "part \<le> whole" and "0 < whole"
  shows "\<bar>toDouble (toDouble (of_nat part / of_nat whole) * 100) - of_nat part / of_nat whole * 100\<bar>
           \<le> 201 / 2 ^ 53"
    and "0 \<le> toDouble (toDouble (of_nat part / of_nat whole) * 100)"
proof -
  define q :: rat where "q = of_nat part / of_nat whole"
  define e :: rat where "e = 1 / 2 ^ 53"
  have e: "0 < e" "e \<le> 1 / 100"
    by (simp_all add: e_def)
  have q: "0 \<le> q" "q \<le> 1"
    using assms by (simp_all add: q_def)
  have "\<bar>toDouble (toDouble q * 100) - q * 100\<bar> \<le> 201 * e \<and> 0 \<le> toDouble (toDouble q * 100)"
  proof (cases "q = 0")
    case True
    then show ?thesis
      using e by (simp add: toDouble_def)
  next
    case False
    with q have pos: "0 < q"
      by simp
    define x where "x = toDouble q"
    from toDouble_error [of q] pos q(2) have e1: "\<bar>x - q\<bar> \<le> q * e"
      by (simp add: x_def e_def)
    have qe: "q * e \<le> e" "q * e \<le> q / 100"
      using q e mult_left_mono [of e "1 / 100" q] mult_right_mono [of q 1 e] by simp_all
    from e1 qe pos have x0: "0 < x"
      by linarith
    from e1 qe q(2) have x1: "x \<le> 1 + e"
      by linarith
    define y where "y = x * 100"
    have y0: "0 < y"
      using x0 by (simp add: y_def)
    have y1: "y \<le> 100 + 100 * e"
      using x1 by (simp add: y_def)
    with e have y3: "y \<le> 101"
      by linarith
    then have y2: "y < 2 ^ 53"
      by simp
    from toDouble_error [OF y0 y2] have e2: "\<bar>toDouble y - y\<bar> \<le> y * e"
      by (simp add: e_def)
    have b2: "y * e \<le> 101 * e" "y * e \<le> y / 100"
      using y3 y0 e mult_right_mono [of y 101 e] mult_left_mono [of e "1 / 100" y] by simp_all
    have b1: "\<bar>y - q * 100\<bar> \<le> 100 * e"
      using e1 qe by (simp add: y_def)
    have "\<bar>toDouble y - q * 100\<bar> \<le> 201 * e"
      using e2 b2 b1 by linarith
    moreover have "0 \<le> toDouble y"
      using e2 b2 y0 by linarith
    ultimately show ?thesis
      by (simp add: x_def y_def)
  qed
  then show "\<bar>toDouble (toDouble (of_nat part / of_nat whole) * 100) - of_nat part / of_nat whole * 100\<bar>
           \<le> 201 / 2 ^ 53"
    and "0 \<le> toDouble (toDouble (of_nat part / of_nat whole) * 100)"
    by (simp_all add: q_def e_def)
qed

lemma toFixed_tenths:
  assumes "0 \<le> x"
  shows "\<exists>n. toFixed x 1 = toFixed (of_nat n / 10) 1 \<and> \<bar>of_nat n / 10 - x\<bar> \<le> 1 / 20"
proof -
  define n where "n = nat \<lfloor>x * 10 + 1 / 2\<rfloor>"
  have nn: "0 \<le> \<lfloor>x * 10 + 1 / 2\<rfloor>"
    using assms by simp
  then have n: "of_nat n = (of_int \<lfloor>x * 10 + 1 / 2\<rfloor> :: rat)"
    by (simp add: n_def)
  have "\<lfloor>(of_nat n :: rat) + 1 / 2\<rfloor> = int n"
    by linarith
  then have "toFixed (of_nat n / 10) 1 = toFixed x 1"
    by (simp add: toFixed_def n_def)
  moreover have "of_int \<lfloor>x * 10 + 1 / 2\<rfloor> \<le> x * 10 + 1 / 2" "x * 10 + 1 / 2 < of_int \<lfloor>x * 10 + 1 / 2\<rfloor> + 1"
    by linarith+
  then have "\<bar>of_nat n / 10 - x\<bar> \<le> 1 / 20"
    unfolding n by linarith
  ultimately show ?thesis
    by metis
qed

lemma percentage_meaning:
  assumes "part \<le> whole" and "0 < whole"
  shows "\<exists>n. percentage part whole = toFixed (of_nat n / 10) 1 \<and>
           \<bar>of_nat n / 10 - of_nat part / of_nat whole * 100 :: rat\<bar> \<le> 1 / 20 + 201 / 2 ^ 53"
proof -
  define x where "x = toDouble (toDouble (of_nat part / of_nat whole) * 100)"
  define t :: rat where "t = of_nat part / of_nat whole * 100"
  define e :: rat where "e = 201 / 2 ^ 53"
  from percent_error [OF assms] have x: "\<bar>x - t\<bar> \<le> e" "0 \<le> x"
    by (simp_all only: x_def t_def e_def)
  from toFixed_tenths [OF x(2)]
  obtain n where n: "toFixed x 1 = toFixed (of_nat n / 10) 1" "\<bar>of_nat n / 10 - x\<bar> \<le> 1 / 20"
    by blast
  from n(2) x(1) have "\<bar>of_nat n / 10 - t\<bar> \<le> 1 / 20 + e"
    by linarith
  with n(1) show ?thesis
    unfolding percentage_def x_def t_def e_def by blast
qed

lemma foldl_assign_pairs:
  assumes "(k, x) \<in> set (foldl (\<lambda>obj e. assign obj (fst e) (g e)) obj es)"
  shows "(k, x) \<in> set obj \<or> (\<exists>e \<in> set es. k = fst e \<and> x = g e)"
  using assms
proof (induction es arbitrary: obj)
  case Nil
  then show ?case by simp
next
  case (Cons e es)
  from Cons.IH [of "assign obj (fst e) (g e)"] Cons.prems
  have "(k, x) \<in> set (assign obj (fst e) (g e)) \<or> (\<exists>e' \<in> set es. k = fst e' \<and> x = g e')"
    by simp
  with assign_entries [of obj "fst e" "g e"] show ?case
    by auto
qed

lemma summary_entry:
  assumes "(v, p) \<in> set (vocalistPercentages (generateStatsSummary toFixed1 vs))"
  shows "\<exists>st. (v, st) \<in> set vs \<and> lines_of p = lines st \<and> words_of p = words st"
proof -
  let ?S = "generateStatsSummary toFixed1 vs"
  define G where "G = (\<lambda>e :: jsstring \<times> stats.
      \<lparr>linesPercentage =
         (if totalLines ?S > 0 then String (toFixed1 (lines (snd e)) (totalLines ?S)) else Number 0),
       wordsPercentage =
         (if totalWords ?S > 0 then String (toFixed1 (words (snd e)) (totalWords ?S)) else Number 0),
       lines_of = lines (snd e), words_of = words (snd e)\<rparr>)"
  have "vocalistPercentages ?S = foldl (\<lambda>obj e. assign obj (fst e) (G e)) [] (entries vs)"
    unfolding G_def by (rule summary_fields(4))
  with assms have "(v, p) \<in> set (foldl (\<lambda>obj e. assign obj (fst e) (G e)) [] (entries vs))"
    by simp
  from foldl_assign_pairs [OF this] obtain e where e: "e \<in> set (entries vs)" "v = fst e" "p = G e"
    by auto
  from e(1,2) have "(v, snd e) \<in> set vs"
    by (simp add: set_entries)
  moreover from e(3) have "lines_of p = lines (snd e)" "words_of p = words (snd e)"
    by (simp_all add: G_def)
  ultimately show ?thesis
    by blast
qed

lemma summary_names:
  "fst ` set (vocalistPercentages (generateStatsSummary toFixed1 vs)) =
     fst ` set vs - {js ''__proto__''}"
  unfolding summary_fields(4) by (simp add: foldl_assign_keys_eq set_entries)

text \<open>
  C4. \<^verbatim>\<open>generateStatsSummary\<close> returns \<^verbatim>\<open>totalLines\<close> and \<^verbatim>\<open>totalWords\<close> equal to the sums of
  the \<^verbatim>\<open>lines\<close> and \<^verbatim>\<open>words\<close> of all vocalists and \<^verbatim>\<open>vocalistCount\<close> equal to the number of
  keys of the input; the result has one entry for each vocalist of the input (a key
  \<^verbatim>\<open>__proto__\<close> apart), with the counts of that vocalist; a percentage is the number \<^verbatim>\<open>0\<close>
  when the total is zero, and otherwise the text \<^verbatim>\<open>(count / total * 100).toFixed(1)\<close> computed
  in binary64: a decimal number with one digit after the point that differs from the exact
  value \<open>count / total * 100\<close> by at most \<open>0.05 + 201 / 2^53\<close>. It is the tenth nearest to the
  double, which is not always the exact value rounded to one decimal place. For empty input
  the totals are zero and the mapping is empty.
\<close>

theorem summary_contract:
  "totalLines (generateStatsSummary percentage vs) = sum_list (map (\<lambda>e. lines (snd e)) vs) \<and>
   totalWords (generateStatsSummary percentage vs) = sum_list (map (\<lambda>e. words (snd e)) vs) \<and>
   vocalistCount (generateStatsSummary percentage vs) = length vs \<and>
   fst ` set (vocalistPercentages (generateStatsSummary percentage vs)) =
     fst ` set vs - {js ''__proto__''} \<and>
   (\<forall>(v, p) \<in> set (vocalistPercentages (generateStatsSummary percentage vs)).
      (\<exists>st. (v, st) \<in> set vs \<and> lines_of p = lines st \<and> words_of p = words st) \<and>
      (totalLines (generateStatsSummary percentage vs) = 0 \<longrightarrow> linesPercentage p = Number 0) \<and>
      (0 < totalLines (generateStatsSummary percentage vs) \<longrightarrow>
         linesPercentage p =
           String (percentage (lines_of p) (totalLines (generateStatsSummary percentage vs))) \<and>
         (\<exists>n. linesPercentage p = String (toFixed (of_nat n / 10) 1) \<and>
              \<bar>of_nat n / 10 -
                 of_nat (lines_of p) / of_nat (totalLines (generateStatsSummary percentage vs)) * 100 :: rat\<bar>
                \<le> 1 / 20 + 201 / 2 ^ 53)) \<and>
      (totalWords (generateStatsSummary percentage vs) = 0 \<longrightarrow> wordsPercentage p = Number 0) \<and>
      (0 < totalWords (generateStatsSummary percentage vs) \<longrightarrow>
         wordsPercentage p =
           String (percentage (words_of p) (totalWords (generateStatsSummary percentage vs))) \<and>
         (\<exists>n. wordsPercentage p = String (toFixed (of_nat n / 10) 1) \<and>
              \<bar>of_nat n / 10 -
                 of_nat (words_of p) / of_nat (totalWords (generateStatsSummary percentage vs)) * 100 :: rat\<bar>
                \<le> 1 / 20 + 201 / 2 ^ 53))) \<and>
   generateStatsSummary percentage [] =
     \<lparr>totalLines = 0, totalWords = 0, vocalistCount = 0, vocalistPercentages = []\<rparr>"
proof -
  let ?S = "generateStatsSummary percentage vs"
  have per: "(\<exists>st. (v, st) \<in> set vs \<and> lines_of p = lines st \<and> words_of p = words st) \<and>
      (totalLines ?S = 0 \<longrightarrow> linesPercentage p = Number 0) \<and>
      (0 < totalLines ?S \<longrightarrow>
         linesPercentage p = String (percentage (lines_of p) (totalLines ?S)) \<and>
         (\<exists>n. linesPercentage p = String (toFixed (of_nat n / 10) 1) \<and>
              \<bar>of_nat n / 10 - of_nat (lines_of p) / of_nat (totalLines ?S) * 100 :: rat\<bar>
                \<le> 1 / 20 + 201 / 2 ^ 53)) \<and>
      (totalWords ?S = 0 \<longrightarrow> wordsPercentage p = Number 0) \<and>
      (0 < totalWords ?S \<longrightarrow>
         wordsPercentage p = String (percentage (words_of p) (totalWords ?S)) \<and>
         (\<exists>n. wordsPercentage p = String (toFixed (of_nat n / 10) 1) \<and>
              \<bar>of_nat n / 10 - of_nat (words_of p) / of_nat (totalWords ?S) * 100 :: rat\<bar>
                \<le> 1 / 20 + 201 / 2 ^ 53))"
    if mem: "(v, p) \<in> set (vocalistPercentages ?S)" for v p
  proof -
    have "\<forall>p \<in> snd ` set (vocalistPercentages ?S).
        (totalLines ?S = 0 \<longrightarrow> linesPercentage p = Number 0) \<and>
        (0 < totalLines ?S \<longrightarrow>
           linesPercentage p = String (percentage (lines_of p) (totalLines ?S))) \<and>
        (totalWords ?S = 0 \<longrightarrow> wordsPercentage p = Number 0) \<and>
        (0 < totalWords ?S \<longrightarrow>
           wordsPercentage p = String (percentage (words_of p) (totalWords ?S)))"
      unfolding summary_fields(4) by (rule foldl_assign_values) simp_all
    moreover from mem have "p \<in> snd ` set (vocalistPercentages ?S)"
      by force
    ultimately have vals:
        "(totalLines ?S = 0 \<longrightarrow> linesPercentage p = Number 0) \<and>
        (0 < totalLines ?S \<longrightarrow>
           linesPercentage p = String (percentage (lines_of p) (totalLines ?S))) \<and>
        (totalWords ?S = 0 \<longrightarrow> wordsPercentage p = Number 0) \<and>
        (0 < totalWords ?S \<longrightarrow>
           wordsPercentage p = String (percentage (words_of p) (totalWords ?S)))"
      by (rule bspec)
    then have v1: "linesPercentage p = Number 0" if "totalLines ?S = 0"
      using that by simp
    from vals have v2: "linesPercentage p = String (percentage (lines_of p) (totalLines ?S))"
      if "0 < totalLines ?S"
      using that by simp
    from vals have v3: "wordsPercentage p = Number 0" if "totalWords ?S = 0"
      using that by simp
    from vals have v4: "wordsPercentage p = String (percentage (words_of p) (totalWords ?S))"
      if "0 < totalWords ?S"
      using that by simp
    from summary_entry [OF mem] obtain st where st: "(v, st) \<in> set vs"
      "lines_of p = lines st" "words_of p = words st"
      by blast
    from st(1) have "lines (snd (v, st)) \<le> sum_list (map (\<lambda>e. lines (snd e)) vs)"
      by (intro member_le_sum_list) force+
    with st(2) have l: "lines_of p \<le> totalLines ?S"
      by (simp add: summary_totals(1))
    from st(1) have "words (snd (v, st)) \<le> sum_list (map (\<lambda>e. words (snd e)) vs)"
      by (intro member_le_sum_list) force+
    with st(3) have w: "words_of p \<le> totalWords ?S"
      by (simp add: summary_totals(2))
    have L: "\<exists>n. linesPercentage p = String (toFixed (of_nat n / 10) 1) \<and>
              \<bar>of_nat n / 10 - of_nat (lines_of p) / of_nat (totalLines ?S) * 100 :: rat\<bar>
                \<le> 1 / 20 + 201 / 2 ^ 53"
      if pos: "0 < totalLines ?S"
    proof -
      from percentage_meaning [OF l pos] obtain n where
        n: "percentage (lines_of p) (totalLines ?S) = toFixed (of_nat n / 10) 1"
          "\<bar>of_nat n / 10 - of_nat (lines_of p) / of_nat (totalLines ?S) * 100 :: rat\<bar>
                \<le> 1 / 20 + 201 / 2 ^ 53"
        by (elim exE conjE)
      from v2 [OF pos] n(1) have "linesPercentage p = String (toFixed (of_nat n / 10) 1)"
        by simp
      with n(2) show ?thesis
        by (intro exI conjI)
    qed
    have W: "\<exists>n. wordsPercentage p = String (toFixed (of_nat n / 10) 1) \<and>
              \<bar>of_nat n / 10 - of_nat (words_of p) / of_nat (totalWords ?S) * 100 :: rat\<bar>
                \<le> 1 / 20 + 201 / 2 ^ 53"
      if pos: "0 < totalWords ?S"
    proof -
      from percentage_meaning [OF w pos] obtain n where
        n: "percentage (words_of p) (totalWords ?S) = toFixed (of_nat n / 10) 1"
          "\<bar>of_nat n / 10 - of_nat (words_of p) / of_nat (totalWords ?S) * 100 :: rat\<bar>
                \<le> 1 / 20 + 201 / 2 ^ 53"
        by (elim exE conjE)
      from v4 [OF pos] n(1) have "wordsPercentage p = String (toFixed (of_nat n / 10) 1)"
        by simp
      with n(2) show ?thesis
        by (intro exI conjI)
    qed
    show ?thesis
      by (intro conjI impI) (rule summary_entry [OF mem] | erule v1 v2 v3 v4 L W)+
  qed
  have B: "\<forall>(v, p) \<in> set (vocalistPercentages ?S).
      (\<exists>st. (v, st) \<in> set vs \<and> lines_of p = lines st \<and> words_of p = words st) \<and>
      (totalLines ?S = 0 \<longrightarrow> linesPercentage p = Number 0) \<and>
      (0 < totalLines ?S \<longrightarrow>
         linesPercentage p = String (percentage (lines_of p) (totalLines ?S)) \<and>
         (\<exists>n. linesPercentage p = String (toFixed (of_nat n / 10) 1) \<and>
              \<bar>of_nat n / 10 - of_nat (lines_of p) / of_nat (totalLines ?S) * 100 :: rat\<bar>
                \<le> 1 / 20 + 201 / 2 ^ 53)) \<and>
      (totalWords ?S = 0 \<longrightarrow> wordsPercentage p = Number 0) \<and>
      (0 < totalWords ?S \<longrightarrow>
         wordsPercentage p = String (percentage (words_of p) (totalWords ?S)) \<and>
         (\<exists>n. wordsPercentage p = String (toFixed (of_nat n / 10) 1) \<and>
              \<bar>of_nat n / 10 - of_nat (words_of p) / of_nat (totalWords ?S) * 100 :: rat\<bar>
                \<le> 1 / 20 + 201 / 2 ^ 53))"
  proof (rule ballI, rule case_prodI2)
    fix a v p
    assume "a \<in> set (vocalistPercentages ?S)" and "a = (v, p)"
    then have mem: "(v, p) \<in> set (vocalistPercentages ?S)"
      by simp
    show "(\<exists>st. (v, st) \<in> set vs \<and> lines_of p = lines st \<and> words_of p = words st) \<and>
      (totalLines ?S = 0 \<longrightarrow> linesPercentage p = Number 0) \<and>
      (0 < totalLines ?S \<longrightarrow>
         linesPercentage p = String (percentage (lines_of p) (totalLines ?S)) \<and>
         (\<exists>n. linesPercentage p = String (toFixed (of_nat n / 10) 1) \<and>
              \<bar>of_nat n / 10 - of_nat (lines_of p) / of_nat (totalLines ?S) * 100 :: rat\<bar>
                \<le> 1 / 20 + 201 / 2 ^ 53)) \<and>
      (totalWords ?S = 0 \<longrightarrow> wordsPercentage p = Number 0) \<and>
      (0 < totalWords ?S \<longrightarrow>
         wordsPercentage p = String (percentage (words_of p) (totalWords ?S)) \<and>
         (\<exists>n. wordsPercentage p = String (toFixed (of_nat n / 10) 1) \<and>
              \<bar>of_nat n / 10 - of_nat (words_of p) / of_nat (totalWords ?S) * 100 :: rat\<bar>
                \<le> 1 / 20 + 201 / 2 ^ 53))"
      by (rule per [OF mem])
  qed
  from summary_totals(1) [of percentage vs] summary_totals(2) [of percentage vs]
    summary_totals(3) [of percentage vs] summary_names [of percentage vs] B
    summary_totals(4) [of percentage]
  show ?thesis
    by (intro conjI)
qed

theorem summary_contract_witness:
  "totalLines (generateStatsSummary percentage
      [(js ''Nick'', \<lparr>lines = 4, words = 16\<rparr>), (js ''Brian'', \<lparr>lines = 2, words = 12\<rparr>),
       (js ''AJ'', \<lparr>lines = 2, words = 8\<rparr>)]) = 8 \<and>
   totalWords (generateStatsSummary percentage
      [(js ''Nick'', \<lparr>lines = 4, words = 16\<rparr>), (js ''Brian'', \<lparr>lines = 2, words = 12\<rparr>),
       (js ''AJ'', \<lparr>lines = 2, words = 8\<rparr>)]) = 36 \<and>
   vocalistPercentages (generateStatsSummary percentage
      [(js ''Nick'', \<lparr>lines = 4, words = 16\<rparr>), (js ''Brian'', \<lparr>lines = 2, words = 12\<rparr>),
       (js ''AJ'', \<lparr>lines = 2, words = 8\<rparr>)]) =
     [(js ''Nick'', \<lparr>linesPercentage = String (js ''50.0''),
         wordsPercentage = String (js ''44.4''), lines_of = 4, words_of = 16\<rparr>),
      (js ''Brian'', \<lparr>linesPercentage = String (js ''25.0''),
         wordsPercentage = String (js ''33.3''), lines_of = 2, words_of = 12\<rparr>),
      (js ''AJ'', \<lparr>linesPercentage = String (js ''25.0''),
         wordsPercentage = String (js ''22.2''), lines_of = 2, words_of = 8\<rparr>)] \<and>
   (\<exists>n. String (js ''44.4'') = String (toFixed (of_nat n / 10) 1) \<and>
        \<bar>of_nat n / 10 - 16 / 36 * 100 :: rat\<bar> \<le> 1 / 20 + 201 / 2 ^ 53)"
proof -
  let ?vs = "[(js ''Nick'', \<lparr>lines = 4, words = 16\<rparr>), (js ''Brian'', \<lparr>lines = 2, words = 12\<rparr>),
       (js ''AJ'', \<lparr>lines = 2, words = 8\<rparr>)]"
  let ?p = "\<lparr>linesPercentage = String (js ''50.0''),
         wordsPercentage = String (js ''44.4''), lines_of = 4, words_of = 16\<rparr>"
  have p: "percentage 4 8 = js ''50.0''" "percentage 2 8 = js ''25.0''"
    "percentage 16 36 = js ''44.4''" "percentage 12 36 = js ''33.3''"
    "percentage 8 36 = js ''22.2''"
    by (simp_all add: double_defs split del: if_split)
  have t: "totalLines (generateStatsSummary percentage ?vs) = 8"
    "totalWords (generateStatsSummary percentage ?vs) = 36"
    by (simp_all add: summary_totals)
  have v: "vocalistPercentages (generateStatsSummary percentage ?vs) =
     [(js ''Nick'', ?p),
      (js ''Brian'', \<lparr>linesPercentage = String (js ''25.0''),
         wordsPercentage = String (js ''33.3''), lines_of = 2, words_of = 12\<rparr>),
      (js ''AJ'', \<lparr>linesPercentage = String (js ''25.0''),
         wordsPercentage = String (js ''22.2''), lines_of = 2, words_of = 8\<rparr>)]"
    unfolding summary_fields(4) t
    by (simp add: p entries_def isArrayIndex_def isDigit_def indexValue_def assign_def js_def)
  then have m: "(js ''Nick'', ?p) \<in> set (vocalistPercentages (generateStatsSummary percentage ?vs))"
    by simp
  note c = summary_contract [of ?vs]
  note ball = c [THEN conjunct2, THEN conjunct2, THEN conjunct2, THEN conjunct2, THEN conjunct1]
  from bspec [OF ball m]
  have "0 < totalWords (generateStatsSummary percentage ?vs) \<longrightarrow>
      wordsPercentage ?p =
        String (percentage (words_of ?p) (totalWords (generateStatsSummary percentage ?vs))) \<and>
      (\<exists>n. wordsPercentage ?p = String (toFixed (of_nat n / 10) 1) \<and>
         \<bar>of_nat n / 10 - of_nat (words_of ?p) /
            of_nat (totalWords (generateStatsSummary percentage ?vs)) * 100 :: rat\<bar>
           \<le> 1 / 20 + 201 / 2 ^ 53)"
    unfolding prod.case by (elim conjE)
  moreover have "0 < totalWords (generateStatsSummary percentage ?vs)"
    by (simp add: t)
  ultimately have "\<exists>n. wordsPercentage ?p = String (toFixed (of_nat n / 10) 1) \<and>
         \<bar>of_nat n / 10 - of_nat (words_of ?p) /
            of_nat (totalWords (generateStatsSummary percentage ?vs)) * 100 :: rat\<bar>
           \<le> 1 / 20 + 201 / 2 ^ 53"
    by (elim impE conjE)
  then have "\<exists>n. String (js ''44.4'') = String (toFixed (of_nat n / 10) 1) \<and>
        \<bar>of_nat n / 10 - 16 / 36 * 100 :: rat\<bar> \<le> 1 / 20 + 201 / 2 ^ 53"
    unfolding t by simp
  with t v show ?thesis
    by (intro conjI)
qed

theorem exact_rounding_counterexample:
  "vocalistPercentages (generateStatsSummary percentage
      [(js ''AJ'', \<lparr>lines = 23, words = 3\<rparr>), (js ''Brian'', \<lparr>lines = 57, words = 1997\<rparr>)]) =
     [(js ''AJ'', \<lparr>linesPercentage = String (js ''28.7''),
         wordsPercentage = String (js ''0.1''), lines_of = 23, words_of = 3\<rparr>),
      (js ''Brian'', \<lparr>linesPercentage = String (js ''71.3''),
         wordsPercentage = String (js ''99.9''), lines_of = 57, words_of = 1997\<rparr>)] \<and>
   toFixed (23 / 80 * 100) 1 = js ''28.8'' \<and>
   toFixed (3 / 2000 * 100) 1 = js ''0.2''"
proof -
  let ?vs = "[(js ''AJ'', \<lparr>lines = 23, words = 3\<rparr>), (js ''Brian'', \<lparr>lines = 57, words = 1997\<rparr>)]"
  have p: "percentage 23 80 = js ''28.7''" "percentage 57 80 = js ''71.3''"
    "percentage 3 2000 = js ''0.1''" "percentage 1997 2000 = js ''99.9''"
    by (simp_all add: double_defs split del: if_split)
  have t: "totalLines (generateStatsSummary percentage ?vs) = 80"
    "totalWords (generateStatsSummary percentage ?vs) = 2000"
    by (simp_all add: summary_totals)
  have v: "vocalistPercentages (generateStatsSummary percentage ?vs) =
     [(js ''AJ'', \<lparr>linesPercentage = String (js ''28.7''),
         wordsPercentage = String (js ''0.1''), lines_of = 23, words_of = 3\<rparr>),
      (js ''Brian'', \<lparr>linesPercentage = String (js ''71.3''),
         wordsPercentage = String (js ''99.9''), lines_of = 57, words_of = 1997\<rparr>)]"
    unfolding summary_fields(4) t
    by (simp add: p entries_def isArrayIndex_def isDigit_def indexValue_def assign_def js_def)
  have e: "toFixed (23 / 80 * 100) 1 = js ''28.8''" "toFixed (3 / 2000 * 100) 1 = js ''0.2''"
    by (simp_all add: double_defs split del: if_split)
  from v e show ?thesis
    by (intro conjI)
qed

end
